theory Spec2Isabelle
  imports Main "HOL-Library.Word" "HOL-Library.Sublist"
begin

unbundle bit_operations_syntax

section \<open>Contextual hold-tap: data model\<close>

text \<open>
  Shallow embedding of \<^verbatim>\<open>contextual_hold_tap.c\<close> and
  \<^verbatim>\<open>contextual_hold_tap_listener.c\<close>.

  Positions are 32-bit values. The C code stores them in \<^verbatim>\<open>int32_t\<close> fields and
  compares them with \<^verbatim>\<open>uint32_t\<close> event positions; such a comparison converts both
  sides to unsigned, so it is equality of the 32-bit patterns, which is equality on
  \<^typ>\<open>32 word\<close>. The sentinel \<^verbatim>\<open>-1\<close> is the word \<open>- 1\<close> and \<^verbatim>\<open>INT32_MIN\<close> is
  the word \<open>2 ^ 31\<close>.

  Timestamps are \<^verbatim>\<open>int64_t\<close> milliseconds and the millisecond settings are
  \<^verbatim>\<open>int\<close>; sums such as \<^verbatim>\<open>timestamp + tapping_term_ms\<close> are computed in 64 bits,
  where signed overflow is undefined in C and out of reach of millisecond clocks, so they
  are modelled as mathematical integers.
\<close>

datatype flavor = FLAVOR_BALANCED | FLAVOR_TAP_PREFERRED | FLAVOR_HOLD_PREFERRED

datatype status =
    STATUS_UNDECIDED
  | STATUS_TAP
  | STATUS_HOLD_INTERRUPT
  | STATUS_HOLD_TIMER

datatype decision_moment =
    HT_KEY_DOWN
  | HT_KEY_UP
  | HT_OTHER_KEY_DOWN
  | HT_OTHER_KEY_UP
  | HT_TIMER_EVENT
  | HT_QUICK_TAP

record zmk_behavior_binding =
  behavior_dev :: string
  param1 :: "32 word"
  param2 :: "32 word"

record zmk_behavior_binding_event =
  be_position :: "32 word"
  be_timestamp :: int
  be_source :: "8 word"

record behavior_contextual_hold_tap_config =
  tapping_term_ms :: int
  quick_tap_ms :: int
  require_prior_idle_ms :: int
  normal_flavor :: flavor
  after_flavor :: flavor
  hold_while_undecided :: bool
  hold_while_undecided_linger :: bool
  retro_tap :: bool
  hold_trigger_on_release :: bool
  hold_trigger_key_positions :: "32 word list"
  tap_bindings :: "zmk_behavior_binding list"
  hold_bindings :: "zmk_behavior_binding list"
  prior_keycodes :: "32 word list"
  prior_timeout_ms :: int

text \<open>
  An array with its length field (\<^verbatim>\<open>hold_trigger_key_positions\<close> and
  \<^verbatim>\<open>hold_trigger_key_positions_len\<close>, and likewise the bindings and the prior
  keycodes) is one list. The \<^verbatim>\<open>config\<close> pointer of a slot is the configuration
  itself: configurations are constant data. The delayable work item of a slot is
  identified by the slot index.
\<close>

record active_hold_tap =
  position :: "32 word"
  source :: "8 word"
  timestamp :: int
  status :: status
  selected_flavor :: flavor
  config :: behavior_contextual_hold_tap_config
  work_is_cancelled :: bool
  position_of_first_other_key_pressed :: "32 word"

record zmk_position_state_changed =
  ps_source :: "8 word"
  ps_position :: "32 word"
  ps_state :: bool
  ps_timestamp :: int

record zmk_keycode_state_changed =
  kc_usage_page :: "16 word"
  kc_keycode :: "32 word"
  kc_implicit_modifiers :: "8 word"
  kc_explicit_modifiers :: "8 word"
  kc_state :: bool
  kc_timestamp :: int

text \<open>The tagged union \<^verbatim>\<open>struct captured_event\<close>; a slot whose tag is
  \<^verbatim>\<open>ET_NONE\<close> is free.\<close>

datatype captured_event =
    ET_NONE
  | ET_POS_CHANGED zmk_position_state_changed
  | ET_CODE_CHANGED zmk_keycode_state_changed

record last_tapped =
  lt_position :: "32 word"
  lt_timestamp :: int

record cht_last_key_info =
  lk_keycode :: "32 word"
  lk_timestamp :: int
  lk_valid :: bool

text \<open>
  Every call that leaves the module is recorded as an action: invoking a binding
  (\<^verbatim>\<open>zmk_behavior_invoke_binding\<close>), re-raising a captured event
  (\<^verbatim>\<open>ZMK_EVENT_RAISE_AT\<close>), \<^verbatim>\<open>k_msleep\<close>, \<^verbatim>\<open>k_work_schedule\<close>,
  \<^verbatim>\<open>k_work_cancel_delayable\<close> and \<^verbatim>\<open>LOG_ERR\<close>. Debug messages
  (\<^verbatim>\<open>LOG_DBG\<close>) are compiled out unless the debug option is set and are not part of
  the trace.
\<close>

datatype action =
    Invoke zmk_behavior_binding zmk_behavior_binding_event bool
  | Raise captured_event
  | Msleep int
  | WorkSchedule nat int
  | WorkCancel nat
  | LogErr string

text \<open>
  The module state: the file-scope variables of the two C files (with the static
  flag of the init function), and the trace \<open>out\<close> of the actions performed so far. \<^verbatim>\<open>undecided_hold_tap\<close> points into
  \<^verbatim>\<open>active_hold_taps\<close>, so it is a slot index, \<open>None\<close> for \<^verbatim>\<open>NULL\<close>. The
  capacities \<^verbatim>\<open>CHT_MAX_HELD\<close> and \<^verbatim>\<open>CHT_MAX_CAPTURED_EVENTS\<close> are build
  settings; they are the lengths of the two lists.
\<close>

record cht_state =
  undecided_hold_tap :: "nat option"
  active_hold_taps :: "active_hold_tap list"
  captured_events :: "captured_event list"
  last_tapped :: last_tapped
  last_key :: cht_last_key_info
  init_first_run :: bool
  out :: "action list"

text \<open>
  The environment: \<open>ext\<close> is what an external call does, its return code and its
  effect on the module state (the firmware may re-enter the module's listeners and
  handlers before the call returns); \<open>is_mod\<close> is the firmware's test for modifier
  usages.
\<close>

record env =
  ext :: "action \<Rightarrow> cht_state \<Rightarrow> int \<times> cht_state"
  is_mod :: "16 word \<Rightarrow> 32 word \<Rightarrow> bool"

definition call :: "env \<Rightarrow> action \<Rightarrow> cht_state \<Rightarrow> int \<times> cht_state" where
  "call e a s = ext e a (s\<lparr>out := out s @ [a]\<rparr>)"

definition log_err :: "string \<Rightarrow> cht_state \<Rightarrow> cht_state" where
  "log_err msg s = s\<lparr>out := out s @ [LogErr msg]\<rparr>"

definition CHT_POSITION_NOT_USED :: "32 word" where
  "CHT_POSITION_NOT_USED = 9999"

definition INT32_MIN :: int where
  "INT32_MIN = - 2147483648"

definition ENOMEM :: int where
  "ENOMEM = 12"

definition EINPROGRESS :: int where
  "EINPROGRESS = 119"

datatype behavior_result = ZMK_BEHAVIOR_OPAQUE | ZMK_BEHAVIOR_TRANSPARENT

datatype listener_result = ZMK_EV_EVENT_BUBBLE | ZMK_EV_EVENT_HANDLED | ZMK_EV_EVENT_CAPTURED

definition ht :: "cht_state \<Rightarrow> nat \<Rightarrow> active_hold_tap" where
  "ht s i = active_hold_taps s ! i"

definition upd_ht :: "nat \<Rightarrow> (active_hold_tap \<Rightarrow> active_hold_tap) \<Rightarrow> cht_state \<Rightarrow> cht_state" where
  "upd_ht i f s = s\<lparr>active_hold_taps := (active_hold_taps s)[i := f (active_hold_taps s ! i)]\<rparr>"

section \<open>Last-tapped tracking and quick tap\<close>

definition store_last_tapped :: "int \<Rightarrow> cht_state \<Rightarrow> cht_state" where
  "store_last_tapped ts s =
     (if ts > lt_timestamp (last_tapped s)
      then s\<lparr>last_tapped := \<lparr>lt_position = word_of_int INT32_MIN, lt_timestamp = ts\<rparr>\<rparr>
      else s)"

definition store_last_hold_tapped :: "nat \<Rightarrow> cht_state \<Rightarrow> cht_state" where
  "store_last_hold_tapped i s =
     s\<lparr>last_tapped := \<lparr>lt_position = position (ht s i), lt_timestamp = timestamp (ht s i)\<rparr>\<rparr>"

definition is_quick_tap :: "nat \<Rightarrow> cht_state \<Rightarrow> bool" where
  "is_quick_tap i s =
     (if lt_timestamp (last_tapped s) + require_prior_idle_ms (config (ht s i)) > timestamp (ht s i)
      then True
      else lt_position (last_tapped s) = position (ht s i) \<and>
           lt_timestamp (last_tapped s) + quick_tap_ms (config (ht s i)) > timestamp (ht s i))"

section \<open>The capture buffer\<close>

text \<open>\<^verbatim>\<open>capture_event\<close>: the first free slot takes the event; \<open>None\<close> when the
  loop runs off the end of the array.\<close>

fun capture_slots :: "captured_event \<Rightarrow> captured_event list \<Rightarrow> captured_event list option" where
  "capture_slots d [] = None"
| "capture_slots d (e # es) =
     (if e = ET_NONE then Some (d # es)
      else (case capture_slots d es of None \<Rightarrow> None | Some es' \<Rightarrow> Some (e # es')))"

definition capture_event :: "captured_event \<Rightarrow> cht_state \<Rightarrow> int \<times> cht_state" where
  "capture_event d s =
     (case capture_slots d (captured_events s) of
        Some es \<Rightarrow> (0, s\<lparr>captured_events := es\<rparr>)
      | None \<Rightarrow> (- ENOMEM, s))"

fun keydown_in :: "32 word \<Rightarrow> captured_event list \<Rightarrow> bool" where
  "keydown_in p [] = False"
| "keydown_in p (ET_NONE # es) = False"
| "keydown_in p (ET_CODE_CHANGED k # es) = keydown_in p es"
| "keydown_in p (ET_POS_CHANGED ev # es) =
     (if ps_position ev = p \<and> ps_state ev then True else keydown_in p es)"

definition have_captured_keydown_event :: "32 word \<Rightarrow> cht_state \<Rightarrow> bool" where
  "have_captured_keydown_event p s = keydown_in p (captured_events s)"

section \<open>Invoking the bindings\<close>

fun invoke_binding_set ::
  "env \<Rightarrow> zmk_behavior_binding list \<Rightarrow> zmk_behavior_binding_event \<Rightarrow> bool \<Rightarrow> cht_state
     \<Rightarrow> int \<times> cht_state" where
  "invoke_binding_set e [] ev pressed s = (0, s)"
| "invoke_binding_set e (b # bs) ev pressed s =
     (case call e (Invoke b ev pressed) s of
        (ret, s') \<Rightarrow> if ret \<noteq> 0 then (ret, s') else invoke_binding_set e bs ev pressed s')"

definition binding_event :: "active_hold_tap \<Rightarrow> zmk_behavior_binding_event" where
  "binding_event h =
     \<lparr>be_position = position h, be_timestamp = timestamp h, be_source = source h\<rparr>"

definition press_hold_binding :: "env \<Rightarrow> nat \<Rightarrow> cht_state \<Rightarrow> int \<times> cht_state" where
  "press_hold_binding e i s =
     invoke_binding_set e (hold_bindings (config (ht s i))) (binding_event (ht s i)) True s"

definition press_tap_binding :: "env \<Rightarrow> nat \<Rightarrow> cht_state \<Rightarrow> int \<times> cht_state" where
  "press_tap_binding e i s =
     invoke_binding_set e (tap_bindings (config (ht s i))) (binding_event (ht s i)) True
       (store_last_hold_tapped i s)"

definition release_hold_binding :: "env \<Rightarrow> nat \<Rightarrow> cht_state \<Rightarrow> int \<times> cht_state" where
  "release_hold_binding e i s =
     invoke_binding_set e (hold_bindings (config (ht s i))) (binding_event (ht s i)) False s"

definition release_tap_binding :: "env \<Rightarrow> nat \<Rightarrow> cht_state \<Rightarrow> int \<times> cht_state" where
  "release_tap_binding e i s =
     invoke_binding_set e (tap_bindings (config (ht s i))) (binding_event (ht s i)) False s"

definition press_binding :: "env \<Rightarrow> nat \<Rightarrow> cht_state \<Rightarrow> int \<times> cht_state" where
  "press_binding e i s =
     (if retro_tap (config (ht s i)) \<and> status (ht s i) = STATUS_HOLD_TIMER then (0, s)
      else if status (ht s i) = STATUS_HOLD_TIMER \<or> status (ht s i) = STATUS_HOLD_INTERRUPT
      then (if hold_while_undecided (config (ht s i)) then (0, s)
            else press_hold_binding e i s)
      else (if hold_while_undecided (config (ht s i)) \<and>
               \<not> hold_while_undecided_linger (config (ht s i))
            then press_tap_binding e i (snd (release_hold_binding e i s))
            else press_tap_binding e i s))"

definition release_binding :: "env \<Rightarrow> nat \<Rightarrow> cht_state \<Rightarrow> int \<times> cht_state" where
  "release_binding e i s =
     (if retro_tap (config (ht s i)) \<and> status (ht s i) = STATUS_HOLD_TIMER then (0, s)
      else if status (ht s i) = STATUS_HOLD_TIMER \<or> status (ht s i) = STATUS_HOLD_INTERRUPT
      then release_hold_binding e i s
      else release_tap_binding e i s)"

section \<open>Deciding a hold-tap\<close>

fun is_trigger_key :: "32 word list \<Rightarrow> 32 word \<Rightarrow> bool" where
  "is_trigger_key [] p = False"
| "is_trigger_key (k # ks) p = (if k = p then True else is_trigger_key ks p)"

definition is_first_other_key_pressed_trigger_key :: "active_hold_tap \<Rightarrow> bool" where
  "is_first_other_key_pressed_trigger_key h =
     is_trigger_key (hold_trigger_key_positions (config h)) (position_of_first_other_key_pressed h)"

text \<open>Force a tap decision if the positional conditions for a hold decision are not met.\<close>

definition decide_positional_hold :: "nat \<Rightarrow> cht_state \<Rightarrow> cht_state" where
  "decide_positional_hold i s =
     (if \<not> (length (hold_trigger_key_positions (config (ht s i))) > 0) then s
      else if position_of_first_other_key_pressed (ht s i) = - 1 then s
      else if is_first_other_key_pressed_trigger_key (ht s i) then s
      else upd_ht i (\<lambda>h. h\<lparr>status := STATUS_TAP\<rparr>) s)"

text \<open>The \<^verbatim>\<open>switch\<close> over the selected flavor and the decision moment inside
  \<^verbatim>\<open>decide_hold_tap\<close>: the status it assigns, the old status where no case
  matches.\<close>

definition flavor_switch :: "flavor \<Rightarrow> decision_moment \<Rightarrow> status \<Rightarrow> status" where
  "flavor_switch f dm old =
     (case f of
        FLAVOR_HOLD_PREFERRED \<Rightarrow>
          (case dm of
             HT_KEY_UP \<Rightarrow> STATUS_TAP
           | HT_OTHER_KEY_DOWN \<Rightarrow> STATUS_HOLD_INTERRUPT
           | HT_TIMER_EVENT \<Rightarrow> STATUS_HOLD_TIMER
           | HT_QUICK_TAP \<Rightarrow> STATUS_TAP
           | _ \<Rightarrow> old)
      | FLAVOR_BALANCED \<Rightarrow>
          (case dm of
             HT_KEY_UP \<Rightarrow> STATUS_TAP
           | HT_OTHER_KEY_UP \<Rightarrow> STATUS_HOLD_INTERRUPT
           | HT_TIMER_EVENT \<Rightarrow> STATUS_HOLD_TIMER
           | HT_QUICK_TAP \<Rightarrow> STATUS_TAP
           | _ \<Rightarrow> old)
      | FLAVOR_TAP_PREFERRED \<Rightarrow>
          (case dm of
             HT_KEY_UP \<Rightarrow> STATUS_TAP
           | HT_TIMER_EVENT \<Rightarrow> STATUS_HOLD_TIMER
           | HT_QUICK_TAP \<Rightarrow> STATUS_TAP
           | _ \<Rightarrow> old))"

text \<open>\<^verbatim>\<open>release_captured_events\<close>: the loop runs over the slot indices; each
  slot is freed before its event is raised again. The event is handed to the environment
  as a value. The \<^verbatim>\<open>default\<close> branch of the \<^verbatim>\<open>switch\<close> over the tag cannot be
  reached: a tag is one of the three constructors.\<close>

fun release_loop :: "env \<Rightarrow> nat list \<Rightarrow> cht_state \<Rightarrow> cht_state" where
  "release_loop e [] s = s"
| "release_loop e (i # ix) s =
     (let ce = captured_events s ! i in
      if ce = ET_NONE then s
      else
        let s1 = s\<lparr>captured_events := (captured_events s)[i := ET_NONE]\<rparr>;
            s2 = (if undecided_hold_tap s1 \<noteq> None then snd (call e (Msleep 10) s1) else s1);
            s3 = snd (call e (Raise ce) s2)
        in release_loop e ix s3)"

definition release_captured_events :: "env \<Rightarrow> cht_state \<Rightarrow> cht_state" where
  "release_captured_events e s =
     (if undecided_hold_tap s \<noteq> None then s
      else release_loop e [0 ..< length (captured_events s)] s)"

definition decide_hold_tap :: "env \<Rightarrow> nat \<Rightarrow> decision_moment \<Rightarrow> cht_state \<Rightarrow> cht_state" where
  "decide_hold_tap e i dm s =
     (if status (ht s i) \<noteq> STATUS_UNDECIDED then s
      else if undecided_hold_tap s \<noteq> Some i then s
      else if hold_while_undecided (config (ht s i)) \<and> dm = HT_KEY_DOWN
      then snd (press_hold_binding e i s)
      else
        let s1 = upd_ht i (\<lambda>h. h\<lparr>status := flavor_switch (selected_flavor h) dm (status h)\<rparr>) s in
        if status (ht s1 i) = STATUS_UNDECIDED then s1
        else
          let s2 = decide_positional_hold i s1;
              s3 = s2\<lparr>undecided_hold_tap := None\<rparr>;
              s4 = snd (press_binding e i s3)
          in release_captured_events e s4)"

definition decide_retro_tap :: "env \<Rightarrow> nat \<Rightarrow> cht_state \<Rightarrow> cht_state" where
  "decide_retro_tap e i s =
     (if \<not> retro_tap (config (ht s i)) then s
      else if status (ht s i) = STATUS_HOLD_TIMER
      then
        let s1 = snd (release_binding e i s);
            s2 = upd_ht i (\<lambda>h. h\<lparr>status := STATUS_TAP\<rparr>) s1
        in snd (press_binding e i s2)
      else s)"

fun retro_loop :: "env \<Rightarrow> 32 word \<Rightarrow> nat list \<Rightarrow> cht_state \<Rightarrow> cht_state" where
  "retro_loop e ignore_position [] s = s"
| "retro_loop e ignore_position (i # ix) s =
     (if position (ht s i) = ignore_position \<or>
         position (ht s i) = CHT_POSITION_NOT_USED \<or>
         retro_tap (config (ht s i)) = False
      then retro_loop e ignore_position ix s
      else if status (ht s i) = STATUS_HOLD_TIMER
      then retro_loop e ignore_position ix
             (snd (press_binding e i (upd_ht i (\<lambda>h. h\<lparr>status := STATUS_HOLD_INTERRUPT\<rparr>) s)))
      else retro_loop e ignore_position ix s)"

definition update_hold_status_for_retro_tap :: "env \<Rightarrow> 32 word \<Rightarrow> cht_state \<Rightarrow> cht_state" where
  "update_hold_status_for_retro_tap e ignore_position s =
     retro_loop e ignore_position [0 ..< length (active_hold_taps s)] s"

section \<open>The slots of active hold-taps\<close>

fun first_slot :: "(active_hold_tap \<Rightarrow> bool) \<Rightarrow> active_hold_tap list \<Rightarrow> nat option" where
  "first_slot P [] = None"
| "first_slot P (h # hs) =
     (if P h then Some 0 else (case first_slot P hs of None \<Rightarrow> None | Some i \<Rightarrow> Some (Suc i)))"

definition find_hold_tap :: "32 word \<Rightarrow> cht_state \<Rightarrow> nat option" where
  "find_hold_tap p s = first_slot (\<lambda>h. position h = p) (active_hold_taps s)"

definition store_hold_tap ::
  "zmk_behavior_binding_event \<Rightarrow> behavior_contextual_hold_tap_config \<Rightarrow> cht_state
     \<Rightarrow> nat option \<times> cht_state" where
  "store_hold_tap event cfg s =
     (case first_slot (\<lambda>h. \<not> position h \<noteq> CHT_POSITION_NOT_USED) (active_hold_taps s) of
        None \<Rightarrow> (None, s)
      | Some i \<Rightarrow>
          (Some i,
           upd_ht i (\<lambda>h. h\<lparr>position := be_position event,
                            source := be_source event,
                            status := STATUS_UNDECIDED,
                            config := cfg,
                            timestamp := be_timestamp event,
                            position_of_first_other_key_pressed := - 1,
                            selected_flavor := normal_flavor cfg\<rparr>) s))"

definition clear_hold_tap :: "nat \<Rightarrow> cht_state \<Rightarrow> cht_state" where
  "clear_hold_tap i s =
     upd_ht i (\<lambda>h. h\<lparr>position := CHT_POSITION_NOT_USED,
                      status := STATUS_UNDECIDED,
                      work_is_cancelled := False,
                      selected_flavor := FLAVOR_BALANCED\<rparr>) s"

fun in_prior_keycodes :: "32 word list \<Rightarrow> 32 word \<Rightarrow> bool" where
  "in_prior_keycodes [] k = False"
| "in_prior_keycodes (c # cs) k = (if c = k then True else in_prior_keycodes cs k)"

definition cht_get_last_key_info :: "cht_state \<Rightarrow> cht_last_key_info" where
  "cht_get_last_key_info s = last_key s"

definition cht_record_last_key :: "32 word \<Rightarrow> int \<Rightarrow> cht_state \<Rightarrow> cht_state" where
  "cht_record_last_key kc ts s =
     (if ts < lk_timestamp (last_key s) then s
      else s\<lparr>last_key := \<lparr>lk_keycode = kc, lk_timestamp = ts, lk_valid = True\<rparr>\<rparr>)"

definition select_flavor :: "behavior_contextual_hold_tap_config \<Rightarrow> int \<Rightarrow> cht_state \<Rightarrow> flavor" where
  "select_flavor cfg now s =
     (if length (prior_keycodes cfg) = 0 then normal_flavor cfg
      else
        let last = cht_get_last_key_info s in
        if \<not> lk_valid last then normal_flavor cfg
        else if now - lk_timestamp last > prior_timeout_ms cfg then normal_flavor cfg
        else if in_prior_keycodes (prior_keycodes cfg) (lk_keycode last) then after_flavor cfg
        else normal_flavor cfg)"

section \<open>The behavior driver: press and release of a hold-tap key\<close>

text \<open>
  \<open>cfg\<close> is the configuration of the device the binding refers to and \<open>uptime\<close>
  is the value \<^verbatim>\<open>k_uptime_get()\<close> returns. The remaining tapping term is stored in
  an \<^verbatim>\<open>int32_t\<close>, which keeps the low 32 bits.
\<close>

definition on_hold_tap_binding_pressed ::
  "env \<Rightarrow> behavior_contextual_hold_tap_config \<Rightarrow> zmk_behavior_binding_event \<Rightarrow> int
     \<Rightarrow> cht_state \<Rightarrow> behavior_result \<times> cht_state" where
  "on_hold_tap_binding_pressed e cfg event uptime s =
     (if undecided_hold_tap s \<noteq> None then (ZMK_BEHAVIOR_OPAQUE, s)
      else
        (case store_hold_tap event cfg s of
           (None, s1) \<Rightarrow>
             (ZMK_BEHAVIOR_OPAQUE, log_err ''unable to store hold-tap info, did you press more than %d hold-taps?'' s1)
         | (Some i, s1) \<Rightarrow>
             let s2 = upd_ht i (\<lambda>h. h\<lparr>selected_flavor :=
                                        select_flavor cfg (be_timestamp event) s1\<rparr>) s1;
                 s3 = s2\<lparr>undecided_hold_tap := Some i\<rparr>;
                 s4 = (if is_quick_tap i s3 then decide_hold_tap e i HT_QUICK_TAP s3 else s3);
                 s5 = decide_hold_tap e i HT_KEY_DOWN s4;
                 left = sint (word_of_int
                          ((timestamp (ht s5 i) + tapping_term_ms cfg) - uptime) :: 32 word);
                 tapping_term_ms_left = (if left < 0 then 0 else left)
             in (ZMK_BEHAVIOR_OPAQUE, snd (call e (WorkSchedule i tapping_term_ms_left) s5))))"

definition on_hold_tap_binding_released ::
  "env \<Rightarrow> zmk_behavior_binding_event \<Rightarrow> cht_state \<Rightarrow> behavior_result \<times> cht_state" where
  "on_hold_tap_binding_released e event s =
     (case find_hold_tap (be_position event) s of
        None \<Rightarrow> (ZMK_BEHAVIOR_OPAQUE, log_err ''ACTIVE_HOLD_TAP_CLEANED_UP_TOO_EARLY'' s)
      | Some i \<Rightarrow>
          (case call e (WorkCancel i) s of
             (work_cancel_result, s1) \<Rightarrow>
               let s2 = (if be_timestamp event >
                            timestamp (ht s1 i) + tapping_term_ms (config (ht s1 i))
                         then decide_hold_tap e i HT_TIMER_EVENT s1 else s1);
                   s3 = decide_hold_tap e i HT_KEY_UP s2;
                   s4 = decide_retro_tap e i s3;
                   s5 = snd (release_binding e i s4);
                   s6 = (if hold_while_undecided (config (ht s5 i)) \<and>
                            hold_while_undecided_linger (config (ht s5 i))
                         then snd (release_hold_binding e i s5) else s5);
                   s7 = (if work_cancel_result = - EINPROGRESS
                         then upd_ht i (\<lambda>h. h\<lparr>work_is_cancelled := True\<rparr>) s6
                         else clear_hold_tap i s6)
               in (ZMK_BEHAVIOR_OPAQUE, s7)))"

section \<open>The event listeners\<close>

definition position_state_changed_listener ::
  "env \<Rightarrow> zmk_position_state_changed \<Rightarrow> cht_state \<Rightarrow> listener_result \<times> cht_state" where
  "position_state_changed_listener e ev s =
     (let s1 = update_hold_status_for_retro_tap e (ps_position ev) s in
      case undecided_hold_tap s1 of
        None \<Rightarrow> (ZMK_EV_EVENT_BUBBLE, s1)
      | Some u \<Rightarrow>
          let s2 = (if (hold_trigger_on_release (config (ht s1 u)) \<noteq> ps_state ev) \<and>
                       (position_of_first_other_key_pressed (ht s1 u) = - 1)
                    then upd_ht u (\<lambda>h. h\<lparr>position_of_first_other_key_pressed :=
                                             ps_position ev\<rparr>) s1
                    else s1) in
          if position (ht s2 u) = ps_position ev
          then (if ps_state ev
                then (ZMK_EV_EVENT_BUBBLE,
                      log_err ''hold-tap listener should be called before most other listeners!'' s2)
                else (ZMK_EV_EVENT_BUBBLE, s2))
          else
            let s3 = (if ps_timestamp ev >
                         timestamp (ht s2 u) + tapping_term_ms (config (ht s2 u))
                      then decide_hold_tap e u HT_TIMER_EVENT s2 else s2) in
            (case undecided_hold_tap s3 of
               None \<Rightarrow> (ZMK_EV_EVENT_BUBBLE, s3)
             | Some u' \<Rightarrow>
                 if \<not> ps_state ev \<and> \<not> have_captured_keydown_event (ps_position ev) s3
                 then (ZMK_EV_EVENT_BUBBLE, s3)
                 else
                   let s4 = snd (capture_event (ET_POS_CHANGED ev) s3) in
                   (ZMK_EV_EVENT_CAPTURED,
                    decide_hold_tap e u'
                      (if ps_state ev then HT_OTHER_KEY_DOWN else HT_OTHER_KEY_UP) s4)))"

definition keycode_state_changed_listener ::
  "env \<Rightarrow> zmk_keycode_state_changed \<Rightarrow> cht_state \<Rightarrow> listener_result \<times> cht_state" where
  "keycode_state_changed_listener e ev s =
     (let s1 = (if kc_state ev \<and> \<not> is_mod e (kc_usage_page ev) (kc_keycode ev)
                then store_last_tapped (kc_timestamp ev) s else s) in
      case undecided_hold_tap s1 of
        None \<Rightarrow> (ZMK_EV_EVENT_BUBBLE, s1)
      | Some u \<Rightarrow>
          if \<not> is_mod e (kc_usage_page ev) (kc_keycode ev) then (ZMK_EV_EVENT_BUBBLE, s1)
          else if hold_while_undecided (config (ht s1 u)) \<and> status (ht s1 u) = STATUS_UNDECIDED
          then (ZMK_EV_EVENT_BUBBLE, s1)
          else (ZMK_EV_EVENT_CAPTURED, snd (capture_event (ET_CODE_CHANGED ev) s1)))"

datatype zmk_event =
    Position_state_changed zmk_position_state_changed
  | Keycode_state_changed zmk_keycode_state_changed
  | Other_event

definition behavior_contextual_hold_tap_listener ::
  "env \<Rightarrow> zmk_event \<Rightarrow> cht_state \<Rightarrow> listener_result \<times> cht_state" where
  "behavior_contextual_hold_tap_listener e eh s =
     (case eh of
        Position_state_changed ev \<Rightarrow> position_state_changed_listener e ev s
      | Keycode_state_changed ev \<Rightarrow> keycode_state_changed_listener e ev s
      | Other_event \<Rightarrow> (ZMK_EV_EVENT_BUBBLE, s))"

text \<open>The listener of \<^verbatim>\<open>contextual_hold_tap_listener.c\<close>, which records the last
  non-modifier key.\<close>

definition contextual_hold_tap_listener ::
  "env \<Rightarrow> zmk_event \<Rightarrow> cht_state \<Rightarrow> listener_result \<times> cht_state" where
  "contextual_hold_tap_listener e eh s =
     (case eh of
        Keycode_state_changed ev \<Rightarrow>
          if \<not> kc_state ev then (ZMK_EV_EVENT_BUBBLE, s)
          else if is_mod e (kc_usage_page ev) (kc_keycode ev) then (ZMK_EV_EVENT_BUBBLE, s)
          else (ZMK_EV_EVENT_BUBBLE, cht_record_last_key (kc_keycode ev) (kc_timestamp ev) s)
      | _ \<Rightarrow> (ZMK_EV_EVENT_BUBBLE, s))"

section \<open>The timer and the initial state\<close>

definition behavior_contextual_hold_tap_timer_work_handler ::
  "env \<Rightarrow> nat \<Rightarrow> cht_state \<Rightarrow> cht_state" where
  "behavior_contextual_hold_tap_timer_work_handler e i s =
     (if work_is_cancelled (ht s i) then clear_hold_tap i s
      else decide_hold_tap e i HT_TIMER_EVENT s)"

definition behavior_contextual_hold_tap_init :: "cht_state \<Rightarrow> cht_state" where
  "behavior_contextual_hold_tap_init s =
     (if init_first_run s
      then s\<lparr>active_hold_taps :=
               map (\<lambda>h. h\<lparr>position := CHT_POSITION_NOT_USED\<rparr>) (active_hold_taps s),
             init_first_run := False\<rparr>
      else s\<lparr>init_first_run := False\<rparr>)"

text \<open>
  The state the static initialisers give, for \<open>max_held\<close> slots and a capture buffer
  of \<open>max_captured\<close> events: everything zero, \<^verbatim>\<open>last_tapped\<close> at
  \<^verbatim>\<open>{INT32_MIN, INT32_MIN}\<close>. A slot that has never been stored has a null
  \<^verbatim>\<open>config\<close> pointer; \<open>no_config\<close> stands for it, and the code reads the
  configuration of a slot only after \<^verbatim>\<open>store_hold_tap\<close> has set it.
\<close>

definition no_config :: behavior_contextual_hold_tap_config where
  "no_config =
     \<lparr>tapping_term_ms = 0, quick_tap_ms = 0, require_prior_idle_ms = 0,
      normal_flavor = FLAVOR_BALANCED, after_flavor = FLAVOR_BALANCED,
      hold_while_undecided = False, hold_while_undecided_linger = False,
      retro_tap = False, hold_trigger_on_release = False,
      hold_trigger_key_positions = [], tap_bindings = [], hold_bindings = [],
      prior_keycodes = [], prior_timeout_ms = 0\<rparr>"

definition zero_hold_tap :: active_hold_tap where
  "zero_hold_tap =
     \<lparr>position = 0, source = 0, timestamp = 0, status = STATUS_UNDECIDED,
      selected_flavor = FLAVOR_BALANCED, config = no_config, work_is_cancelled = False,
      position_of_first_other_key_pressed = 0\<rparr>"

definition static_state :: "nat \<Rightarrow> nat \<Rightarrow> cht_state" where
  "static_state max_held max_captured =
     \<lparr>undecided_hold_tap = None,
      active_hold_taps = replicate max_held zero_hold_tap,
      captured_events = replicate max_captured ET_NONE,
      last_tapped = \<lparr>lt_position = word_of_int INT32_MIN, lt_timestamp = INT32_MIN\<rparr>,
      last_key = \<lparr>lk_keycode = 0, lk_timestamp = 0, lk_valid = False\<rparr>,
      init_first_run = True,
      out = []\<rparr>"

definition initial_state :: "nat \<Rightarrow> nat \<Rightarrow> cht_state" where
  "initial_state max_held max_captured =
     behavior_contextual_hold_tap_init (static_state max_held max_captured)"

text \<open>An environment without re-entrancy: every external call returns 0 and leaves
  the module state as it is. The trace then lists what the module did.\<close>

definition quiet :: "(16 word \<Rightarrow> 32 word \<Rightarrow> bool) \<Rightarrow> env" where
  "quiet m = \<lparr>ext = (\<lambda>a s. (0, s)), is_mod = m\<rparr>"

section \<open>The magic (alternate repeat) key\<close>

text \<open>
  Shallow embedding of \<^verbatim>\<open>magic.c\<close>. Keycodes are \<^verbatim>\<open>uint16_t\<close>. The keycode
  ranges and the repeat keycodes are those of the firmware's keycode table:
  mod-tap keycodes are \<^verbatim>\<open>0x2000..0x3FFF\<close>, layer-tap keycodes
  \<^verbatim>\<open>0x4000..0x4FFF\<close>, both with the tap keycode in the low byte;
  \<^verbatim>\<open>QK_REP = 0x7C79\<close> and \<^verbatim>\<open>QK_AREP = 0x7C7A\<close>. The debug prints
  (\<^verbatim>\<open>MAGIC_LOG\<close>) are left out.
\<close>

definition QK_REP :: "16 word" where
  "QK_REP = 0x7C79"

definition QK_AREP :: "16 word" where
  "QK_AREP = 0x7C7A"

definition IS_QK_MOD_TAP :: "16 word \<Rightarrow> bool" where
  "IS_QK_MOD_TAP code \<longleftrightarrow> code \<ge> 0x2000 \<and> code \<le> 0x3FFF"

definition IS_QK_LAYER_TAP :: "16 word \<Rightarrow> bool" where
  "IS_QK_LAYER_TAP code \<longleftrightarrow> code \<ge> 0x4000 \<and> code \<le> 0x4FFF"

definition QK_MOD_TAP_GET_TAP_KEYCODE :: "16 word \<Rightarrow> 16 word" where
  "QK_MOD_TAP_GET_TAP_KEYCODE kc = kc AND 0xFF"

definition QK_LAYER_TAP_GET_TAP_KEYCODE :: "16 word \<Rightarrow> 16 word" where
  "QK_LAYER_TAP_GET_TAP_KEYCODE kc = kc AND 0xFF"

definition unwrap_tap_keycode :: "16 word \<Rightarrow> 16 word" where
  "unwrap_tap_keycode keycode =
     (if IS_QK_MOD_TAP keycode
      then (let tap = QK_MOD_TAP_GET_TAP_KEYCODE keycode in
            if tap = 0x7A then QK_AREP else tap)
      else if IS_QK_LAYER_TAP keycode then QK_LAYER_TAP_GET_TAP_KEYCODE keycode
      else keycode)"

text \<open>What the magic key sends to the firmware: \<^verbatim>\<open>tap_code16\<close> of a keycode, or
  a string typed by \<^verbatim>\<open>SEND_STRING\<close>.\<close>

datatype qmk_action = Tap_code16 "16 word" | Send_string string

text \<open>
  The two functions every keymap supplies (\<^verbatim>\<open>keymap.c\<close>):
  \<^verbatim>\<open>get_alt_repeat_key_keycode_user(keycode, mods)\<close> and
  \<^verbatim>\<open>process_magic_record(keycode, record)\<close>; the latter reads only
  \<^verbatim>\<open>record->event.pressed\<close> and returns its result with what it typed.
\<close>

record keymap_hooks =
  get_alt_repeat_key_keycode_user :: "16 word \<Rightarrow> 8 word \<Rightarrow> 16 word"
  process_magic_record :: "16 word \<Rightarrow> bool \<Rightarrow> bool \<times> qmk_action list"

text \<open>The repeat-key memory of the firmware, read by \<^verbatim>\<open>get_last_keycode()\<close>
  and \<^verbatim>\<open>get_last_mods()\<close>.\<close>

record repeat_memory =
  last_keycode :: "16 word"
  last_mods :: "8 word"

definition handle_magic_tap ::
  "keymap_hooks \<Rightarrow> repeat_memory \<Rightarrow> 16 word \<Rightarrow> bool \<times> qmk_action list" where
  "handle_magic_tap km mem keycode =
     (let last_key = unwrap_tap_keycode (last_keycode mem);
          lmods = last_mods mem;
          alt = get_alt_repeat_key_keycode_user km last_key lmods
      in case process_magic_record km alt True of
           (cont, typed) \<Rightarrow>
             if \<not> cont then (False, typed)
             else if alt = QK_REP then (False, typed @ [Tap_code16 last_key])
             else (False, typed @ [Tap_code16 alt]))"

definition get_repeat_key_eligible_user :: "16 word \<Rightarrow> bool" where
  "get_repeat_key_eligible_user keycode =
     (let tap = unwrap_tap_keycode keycode in
      if keycode = QK_REP \<or> keycode = QK_AREP then False
      else if tap = QK_AREP then False
      else True)"

definition remember_last_key_user :: "16 word \<Rightarrow> bool" where
  "remember_last_key_user keycode =
     (let tap = unwrap_tap_keycode keycode in
      if tap = QK_AREP then False else True)"

text \<open>\<open>pressed\<close>, \<open>tap_count\<close> and \<open>interrupted\<close> are the fields
  \<^verbatim>\<open>event.pressed\<close>, \<^verbatim>\<open>tap.count\<close> and \<^verbatim>\<open>tap.interrupted\<close> of the
  key record.\<close>

definition magic_process_record ::
  "keymap_hooks \<Rightarrow> repeat_memory \<Rightarrow> 16 word \<Rightarrow> bool \<Rightarrow> 8 word \<Rightarrow> bool
     \<Rightarrow> bool \<times> qmk_action list" where
  "magic_process_record km mem keycode pressed tap_count interrupted =
     (let tap = unwrap_tap_keycode keycode;
          is_magic_mod_tap = (IS_QK_MOD_TAP keycode \<and> tap = QK_AREP)
      in if is_magic_mod_tap
         then (if pressed then (True, [])
               else if tap_count = 0 \<or> interrupted then (True, [])
               else handle_magic_tap km mem keycode)
         else if pressed \<and> tap = QK_AREP then handle_magic_tap km mem keycode
         else (True, []))"

subsection \<open>The keymap of the Lulu board\<close>

text \<open>
  The two keymap functions as \<^verbatim>\<open>keyboards/boardsource/lulu/rp2040/keymaps/dario/keymap.c\<close>
  defines them. \<open>base_layer\<close> is the value of \<^verbatim>\<open>get_current_base_layer()\<close>; the
  basic keycodes are the firmware's (USB usage numbers, \<^verbatim>\<open>KC_GT\<close> being shifted
  \<^verbatim>\<open>KC_DOT\<close>), and the custom keycodes count up from \<^verbatim>\<open>SAFE_RANGE\<close>.
\<close>

definition KC_A :: "16 word" where "KC_A = 0x04"
definition KC_C :: "16 word" where "KC_C = 0x06"
definition KC_E :: "16 word" where "KC_E = 0x08"
definition KC_G :: "16 word" where "KC_G = 0x0A"
definition KC_L :: "16 word" where "KC_L = 0x0F"
definition KC_P :: "16 word" where "KC_P = 0x13"
definition KC_Y :: "16 word" where "KC_Y = 0x1C"
definition KC_SPC :: "16 word" where "KC_SPC = 0x2C"
definition KC_MINS :: "16 word" where "KC_MINS = 0x2D"
definition KC_COMM :: "16 word" where "KC_COMM = 0x36"
definition KC_DOT :: "16 word" where "KC_DOT = 0x37"
definition KC_SLSH :: "16 word" where "KC_SLSH = 0x38"
definition KC_GT :: "16 word" where "KC_GT = 0x0237"
definition SAFE_RANGE :: "16 word" where "SAFE_RANGE = 0x7E40"
definition MACRO_GITHUB_URL :: "16 word" where "MACRO_GITHUB_URL = SAFE_RANGE"
definition MAGIC_ALT2_CHR_32 :: "16 word" where "MAGIC_ALT2_CHR_32 = MACRO_GITHUB_URL + 1"
definition MAGIC_ALT2_CHR_44 :: "16 word" where "MAGIC_ALT2_CHR_44 = MACRO_GITHUB_URL + 2"
definition MAGIC_ALT_CHR_32 :: "16 word" where "MAGIC_ALT_CHR_32 = MACRO_GITHUB_URL + 3"
definition MAGIC_ALT_CHR_44 :: "16 word" where "MAGIC_ALT_CHR_44 = MACRO_GITHUB_URL + 4"
definition MAGIC_PRIMARY_CHR_32 :: "16 word" where "MAGIC_PRIMARY_CHR_32 = MACRO_GITHUB_URL + 5"
definition MAGIC_PRIMARY_CHR_44 :: "16 word" where "MAGIC_PRIMARY_CHR_44 = MACRO_GITHUB_URL + 6"

definition BASE_PRIMARY :: "8 word" where "BASE_PRIMARY = 0"
definition BASE_ALT :: "8 word" where "BASE_ALT = 1"
definition BASE_ALT2 :: "8 word" where "BASE_ALT2 = 2"

text \<open>The \<^verbatim>\<open>switch\<close> shared by the three base layers, after the two entries for
  space and comma; \<open>None\<close> when no case matches and control falls out of the
  \<^verbatim>\<open>switch\<close>.\<close>

definition lulu_common_alternate :: "16 word \<Rightarrow> 16 word option" where
  "lulu_common_alternate keycode =
     (if keycode = KC_MINS then Some KC_GT
      else if keycode = KC_DOT then Some KC_SLSH
      else if keycode = KC_P then Some KC_L
      else if keycode = KC_L then Some KC_P
      else if keycode = KC_E then Some KC_Y
      else if keycode = KC_C then Some KC_Y
      else if keycode = KC_G then Some KC_Y
      else None)"

definition lulu_layer_alternate :: "16 word \<Rightarrow> 16 word \<Rightarrow> 16 word \<Rightarrow> 16 word option" where
  "lulu_layer_alternate chr_32 chr_44 keycode =
     (if keycode = KC_SPC then Some chr_32
      else if keycode = KC_COMM then Some chr_44
      else lulu_common_alternate keycode)"

definition lulu_get_alt_repeat_key_keycode_user :: "8 word \<Rightarrow> 16 word \<Rightarrow> 8 word \<Rightarrow> 16 word" where
  "lulu_get_alt_repeat_key_keycode_user base_layer keycode mods =
     (case (if base_layer = BASE_PRIMARY
            then lulu_layer_alternate MAGIC_PRIMARY_CHR_32 MAGIC_PRIMARY_CHR_44 keycode
            else None) of
        Some alt \<Rightarrow> alt
      | None \<Rightarrow>
     (case (if base_layer = BASE_ALT
            then lulu_layer_alternate MAGIC_ALT_CHR_32 MAGIC_ALT_CHR_44 keycode
            else None) of
        Some alt \<Rightarrow> alt
      | None \<Rightarrow>
     (case (if base_layer = BASE_ALT2
            then lulu_layer_alternate MAGIC_ALT2_CHR_32 MAGIC_ALT2_CHR_44 keycode
            else None) of
        Some alt \<Rightarrow> alt
      | None \<Rightarrow> QK_REP)))"

definition lulu_process_magic_record :: "16 word \<Rightarrow> bool \<Rightarrow> bool \<times> qmk_action list" where
  "lulu_process_magic_record keycode pressed =
     (if \<not> pressed then (True, [])
      else if keycode = MAGIC_ALT2_CHR_32 then (False, [Send_string ''the''])
      else if keycode = MAGIC_ALT2_CHR_44 then (False, [Send_string '' but''])
      else if keycode = MAGIC_ALT_CHR_32 then (False, [Send_string ''the''])
      else if keycode = MAGIC_ALT_CHR_44 then (False, [Send_string '' but''])
      else if keycode = MAGIC_PRIMARY_CHR_32 then (False, [Send_string ''the''])
      else if keycode = MAGIC_PRIMARY_CHR_44 then (False, [Send_string '' but''])
      else (True, []))"

definition lulu :: "8 word \<Rightarrow> keymap_hooks" where
  "lulu base_layer =
     \<lparr>get_alt_repeat_key_keycode_user = lulu_get_alt_repeat_key_keycode_user base_layer,
      process_magic_record = lulu_process_magic_record\<rparr>"

section \<open>Specification-side definitions\<close>

text \<open>The flavor transition table as the specification prints it: a dash, and the
  key-down moment for which the table has no column, leave the status undecided.\<close>

fun spec_flavor_table :: "flavor \<Rightarrow> decision_moment \<Rightarrow> status" where
  "spec_flavor_table FLAVOR_HOLD_PREFERRED HT_KEY_UP = STATUS_TAP"
| "spec_flavor_table FLAVOR_HOLD_PREFERRED HT_OTHER_KEY_DOWN = STATUS_HOLD_INTERRUPT"
| "spec_flavor_table FLAVOR_HOLD_PREFERRED HT_OTHER_KEY_UP = STATUS_UNDECIDED"
| "spec_flavor_table FLAVOR_HOLD_PREFERRED HT_TIMER_EVENT = STATUS_HOLD_TIMER"
| "spec_flavor_table FLAVOR_HOLD_PREFERRED HT_QUICK_TAP = STATUS_TAP"
| "spec_flavor_table FLAVOR_BALANCED HT_KEY_UP = STATUS_TAP"
| "spec_flavor_table FLAVOR_BALANCED HT_OTHER_KEY_DOWN = STATUS_UNDECIDED"
| "spec_flavor_table FLAVOR_BALANCED HT_OTHER_KEY_UP = STATUS_HOLD_INTERRUPT"
| "spec_flavor_table FLAVOR_BALANCED HT_TIMER_EVENT = STATUS_HOLD_TIMER"
| "spec_flavor_table FLAVOR_BALANCED HT_QUICK_TAP = STATUS_TAP"
| "spec_flavor_table FLAVOR_TAP_PREFERRED HT_KEY_UP = STATUS_TAP"
| "spec_flavor_table FLAVOR_TAP_PREFERRED HT_OTHER_KEY_DOWN = STATUS_UNDECIDED"
| "spec_flavor_table FLAVOR_TAP_PREFERRED HT_OTHER_KEY_UP = STATUS_UNDECIDED"
| "spec_flavor_table FLAVOR_TAP_PREFERRED HT_TIMER_EVENT = STATUS_HOLD_TIMER"
| "spec_flavor_table FLAVOR_TAP_PREFERRED HT_QUICK_TAP = STATUS_TAP"
| "spec_flavor_table f HT_KEY_DOWN = STATUS_UNDECIDED"

text \<open>The three conditions of the positional override, in the specification's words.\<close>

definition positional_override :: "active_hold_tap \<Rightarrow> bool" where
  "positional_override h \<longleftrightarrow>
     hold_trigger_key_positions (config h) \<noteq> [] \<and>
     position_of_first_other_key_pressed h \<noteq> - 1 \<and>
     position_of_first_other_key_pressed h \<notin> set (hold_trigger_key_positions (config h))"

text \<open>Quick-tap detection in the specification's words. A timestamp \<open>t0\<close> is within
  \<open>d\<close> milliseconds of a timestamp \<open>t\<close> when the two are less than \<open>d\<close>
  milliseconds apart, whichever comes first; nothing is within zero or a negative number
  of milliseconds.\<close>

definition within_ms :: "int \<Rightarrow> int \<Rightarrow> int \<Rightarrow> bool" where
  "within_ms d t0 t \<longleftrightarrow> \<bar>t - t0\<bar> < d"

definition spec_quick_tap ::
  "last_tapped \<Rightarrow> behavior_contextual_hold_tap_config \<Rightarrow> 32 word \<Rightarrow> int \<Rightarrow> bool" where
  "spec_quick_tap lt cfg pos t \<longleftrightarrow>
     within_ms (require_prior_idle_ms cfg) (lt_timestamp lt) t \<or>
     (lt_position lt = pos \<and> within_ms (quick_tap_ms cfg) (lt_timestamp lt) t)"

text \<open>An environment whose external calls never write the slots of the active
  hold-taps.\<close>

definition keeps_hold_taps :: "env \<Rightarrow> bool" where
  "keeps_hold_taps e \<longleftrightarrow> (\<forall>a s. active_hold_taps (snd (ext e a s)) = active_hold_taps s)"

text \<open>The events waiting in the capture buffer, front first: the slots before the first
  free one, which are the slots a drain visits.\<close>

definition pending :: "cht_state \<Rightarrow> captured_event list" where
  "pending s = takeWhile (\<lambda>c. c \<noteq> ET_NONE) (captured_events s)"

text \<open>The events a trace raises again, in the order of the trace.\<close>

fun raised :: "action list \<Rightarrow> captured_event list" where
  "raised [] = []"
| "raised (Raise c # tr) = c # raised tr"
| "raised (a # tr) = raised tr"

text \<open>The firmware's test for modifier usages: the keyboard usage page and the eight
  usages from left control to right GUI.\<close>

definition hid_is_mod :: "16 word \<Rightarrow> 32 word \<Rightarrow> bool" where
  "hid_is_mod usage_page keycode \<longleftrightarrow> keycode \<ge> 0xE0 \<and> keycode \<le> 0xE7 \<and> usage_page = 0x07"

section \<open>Sample inputs\<close>

definition kp_A :: zmk_behavior_binding where
  "kp_A = \<lparr>behavior_dev = ''key_press'', param1 = 0x04, param2 = 0\<rparr>"

definition kp_LSHIFT :: zmk_behavior_binding where
  "kp_LSHIFT = \<lparr>behavior_dev = ''key_press'', param1 = 0xE1, param2 = 0\<rparr>"

definition key_event :: "32 word \<Rightarrow> int \<Rightarrow> zmk_behavior_binding_event" where
  "key_event p t = \<lparr>be_position = p, be_timestamp = t, be_source = 0\<rparr>"

definition sample_config :: "flavor \<Rightarrow> behavior_contextual_hold_tap_config" where
  "sample_config f =
     \<lparr>tapping_term_ms = 200, quick_tap_ms = 100, require_prior_idle_ms = 0,
      normal_flavor = f, after_flavor = f,
      hold_while_undecided = False, hold_while_undecided_linger = False,
      retro_tap = False, hold_trigger_on_release = False,
      hold_trigger_key_positions = [], tap_bindings = [kp_A], hold_bindings = [kp_LSHIFT],
      prior_keycodes = [], prior_timeout_ms = 0\<rparr>"

definition plain :: env where
  "plain = quiet hid_is_mod"

text \<open>A hold-tap at position 10 pressed at time \<open>t\<close> on a freshly initialised module
  with ten slots and a capture buffer of forty events.\<close>

definition sample_down :: "behavior_contextual_hold_tap_config \<Rightarrow> int \<Rightarrow> cht_state" where
  "sample_down cfg t = snd (on_hold_tap_binding_pressed plain cfg (key_event 10 t) t (initial_state 10 40))"

definition position_event :: "32 word \<Rightarrow> bool \<Rightarrow> int \<Rightarrow> zmk_position_state_changed" where
  "position_event p pressed t = \<lparr>ps_source = 0, ps_position = p, ps_state = pressed, ps_timestamp = t\<rparr>"

text \<open>The same hold-tap with trigger positions 40, 41 and 42, and position 20 recorded
  as the first other key; and the state the position listener reaches when the key at
  position 20 goes down at time 30.\<close>

definition positional_config :: "flavor \<Rightarrow> behavior_contextual_hold_tap_config" where
  "positional_config f = (sample_config f)\<lparr>hold_trigger_key_positions := [40, 41, 42]\<rparr>"

definition sample_first_other :: "flavor \<Rightarrow> cht_state" where
  "sample_first_other f =
     upd_ht 0 (\<lambda>h. h\<lparr>position_of_first_other_key_pressed := 20\<rparr>)
       (sample_down (positional_config f) 0)"

definition sample_positional :: "flavor \<Rightarrow> cht_state" where
  "sample_positional f =
     snd (position_state_changed_listener plain (position_event 20 True 30)
            (sample_down (positional_config f) 0))"

text \<open>The state after the hold-tap at position 10 was pressed at time 0 and released, as
  a tap, at time 30: the last-tapped record is position 10 at time 0.\<close>

definition sample_tapped :: cht_state where
  "sample_tapped =
     snd (on_hold_tap_binding_released plain (key_event 10 30)
            (sample_down (sample_config FLAVOR_BALANCED) 0))"

text \<open>The pure tap of the specification's first scenario: the balanced hold-tap pressed at
  time 0 and released at time 50.\<close>

definition sample_pure_tap :: cht_state where
  "sample_pure_tap =
     snd (on_hold_tap_binding_released plain (key_event 10 50)
            (sample_down (sample_config FLAVOR_BALANCED) 0))"


definition keycode_event :: "32 word \<Rightarrow> bool \<Rightarrow> int \<Rightarrow> zmk_keycode_state_changed" where
  "keycode_event k pressed t =
     \<lparr>kc_usage_page = 0x07, kc_keycode = k, kc_implicit_modifiers = 0,
      kc_explicit_modifiers = 0, kc_state = pressed, kc_timestamp = t\<rparr>"

text \<open>A hold-tap pressed at time 100; then a press of the letter A (usage 4) stamped 150
  reaches the keycode listener; then the hold-tap is released at time 160.\<close>

definition sample_key_after_down :: cht_state where
  "sample_key_after_down =
     snd (keycode_state_changed_listener plain (keycode_event 0x04 True 150)
            (sample_down (sample_config FLAVOR_BALANCED) 100))"

definition sample_tap_after_key :: cht_state where
  "sample_tap_after_key =
     snd (on_hold_tap_binding_released plain (key_event 10 160) sample_key_after_down)"

text \<open>
  A last tap stamped after a keydown. The balanced hold-tap at position 10 goes down at
  time 0; the key at position 11 goes down at time 50 and is captured; a press of the
  letter A stamped 150 reaches the keycode listener; at time 200 the timer decides the
  hold-tap at position 10, and the drain raises the press of position 11 again, still
  stamped 50. \<open>sample_later_tap\<close> is the state at that point. The keymap has a
  tap-preferred hold-tap at position 11, with \<^verbatim>\<open>require_prior_idle_ms\<close> 0 or,
  in \<open>idle_off_config\<close>, -1.
\<close>

definition sample_later_tap :: cht_state where
  "sample_later_tap =
     behavior_contextual_hold_tap_timer_work_handler plain 0
       (snd (keycode_state_changed_listener plain (keycode_event 0x04 True 150)
          (snd (position_state_changed_listener plain (position_event 11 True 50)
             (sample_down (sample_config FLAVOR_BALANCED) 0)))))"

definition idle_off_config :: behavior_contextual_hold_tap_config where
  "idle_off_config = (sample_config FLAVOR_TAP_PREFERRED)\<lparr>require_prior_idle_ms := - 1\<rparr>"

text \<open>The capture buffer filled: after the hold-tap at position 10 went down at time 0,
  the forty keys at positions 20 to 59 go down at time 10 and are captured.
  \<open>sample_full\<close> is the state this leaves, written out; the key at position 60 goes
  down next.\<close>

definition sample_filling :: cht_state where
  "sample_filling =
     foldl (\<lambda>s p. snd (position_state_changed_listener plain
                          (position_event (of_nat p) True 10) s))
       (sample_down (sample_config FLAVOR_BALANCED) 0) [20 ..< 60]"

definition sample_full :: cht_state where
  "sample_full =
     (upd_ht 0 (\<lambda>h. h\<lparr>position_of_first_other_key_pressed := 20\<rparr>)
        (sample_down (sample_config FLAVOR_BALANCED) 0))
       \<lparr>captured_events :=
          map (\<lambda>p. ET_POS_CHANGED (position_event (of_nat p) True 10)) [20 ..< 60]\<rparr>"

definition sample_overflow :: "listener_result \<times> cht_state" where
  "sample_overflow = position_state_changed_listener plain (position_event 60 True 20) sample_full"

definition sample_overflow_released :: cht_state where
  "sample_overflow_released =
     snd (on_hold_tap_binding_released plain (key_event 10 50) (snd sample_overflow))"

text \<open>The binding invocations of a trace, in the order of the trace.\<close>

fun invocations :: "action list \<Rightarrow> action list" where
  "invocations [] = []"
| "invocations (Invoke b ev pressed # tr) = Invoke b ev pressed # invocations tr"
| "invocations (a # tr) = invocations tr"


text \<open>The repeat-key memory after a shifted A: the keycode of A with the left-shift bit
  as remembered modifiers; and the same key remembered without modifiers.\<close>

definition after_shift_a :: repeat_memory where
  "after_shift_a = \<lparr>last_keycode = KC_A, last_mods = 0x02\<rparr>"

definition after_plain_a :: repeat_memory where
  "after_plain_a = \<lparr>last_keycode = KC_A, last_mods = 0x00\<rparr>"

text \<open>
  An environment that answers a raised event by capturing it again or by leaving the
  capture buffer alone: what the module's own listener does with an event that reaches it
  again when it takes no decision. Such an environment may set
  \<^verbatim>\<open>undecided_hold_tap\<close> (a raised press can be the press of another hold-tap key), it
  raises nothing itself, and sleeping leaves the buffer alone.
\<close>

definition recaptures :: "env \<Rightarrow> bool" where
  "recaptures e \<longleftrightarrow>
     (\<forall>a s. raised (out (snd (ext e a s))) = raised (out s)) \<and>
     (\<forall>n s. captured_events (snd (ext e (Msleep n) s)) = captured_events s) \<and>
     (\<forall>c s. captured_events (snd (ext e (Raise c) s)) = captured_events s \<or>
            captured_events (snd (ext e (Raise c) s)) = captured_events (snd (capture_event c s)))"

text \<open>The smallest such environment: the raised press of the key at position 11 makes a
  new undecided hold-tap appear (in slot 1), and every event raised while a hold-tap is
  undecided is captured again.\<close>

definition requeue :: env where
  "requeue =
     \<lparr>ext = (\<lambda>a s. case a of
                Raise c \<Rightarrow>
                  if undecided_hold_tap s \<noteq> None then (0, snd (capture_event c s))
                  else if c = ET_POS_CHANGED (position_event 11 True 5)
                  then (0, s\<lparr>undecided_hold_tap := Some 1\<rparr>)
                  else (0, s)
              | _ \<Rightarrow> (0, s)),
      is_mod = hid_is_mod\<rparr>"

text \<open>Three captured events in a buffer of forty: key 11 down, key 20 down, key 20 up,
  and no undecided hold-tap.\<close>

definition sample_three :: cht_state where
  "sample_three =
     (initial_state 10 40)
       \<lparr>captured_events :=
          [ET_POS_CHANGED (position_event 11 True 5),
           ET_POS_CHANGED (position_event 20 True 10),
           ET_POS_CHANGED (position_event 20 False 15)] @ replicate 37 ET_NONE\<rparr>"

text \<open>
  An environment with one level of re-entrancy, built from the module's own handlers: a
  raised position event goes through \<^verbatim>\<open>position_state_changed_listener\<close> again, and
  when it bubbles and its position is 11, where the keymap has a second, tap-preferred
  hold-tap, the keymap calls the behavior's press or release handler. Inside these nested
  calls the environment is \<open>plain\<close>.
\<close>

definition pipeline :: env where
  "pipeline =
     \<lparr>ext = (\<lambda>a s. case a of
                Raise (ET_POS_CHANGED ev) \<Rightarrow>
                  (case position_state_changed_listener plain ev s of
                     (ZMK_EV_EVENT_CAPTURED, s') \<Rightarrow> (0, s')
                   | (r, s') \<Rightarrow>
                       if ps_position ev = 11
                       then (if ps_state ev
                             then (0, snd (on_hold_tap_binding_pressed plain
                                             (sample_config FLAVOR_TAP_PREFERRED)
                                             (key_event 11 (ps_timestamp ev)) (ps_timestamp ev) s'))
                             else (0, snd (on_hold_tap_binding_released plain
                                             (key_event 11 (ps_timestamp ev)) s')))
                       else (0, s'))
              | _ \<Rightarrow> (0, s)),
      is_mod = hid_is_mod\<rparr>"

text \<open>The balanced hold-tap at position 10 goes down at time 0; then key 11 goes down at 5,
  key 20 goes down at 10 and up at 15. The last event decides the hold-tap, and the drain
  runs in the re-entrant environment.\<close>

definition sample_nested :: cht_state where
  "sample_nested =
     snd (position_state_changed_listener pipeline (position_event 20 False 15)
       (snd (position_state_changed_listener pipeline (position_event 20 True 10)
         (snd (position_state_changed_listener pipeline (position_event 11 True 5)
           (sample_down (sample_config FLAVOR_BALANCED) 0))))))"

text \<open>The run that leads to \<open>sample_later_tap\<close> with the timer's drain in the
  re-entrant environment: the raised press of position 11 reaches the press handler of the
  hold-tap at position 11 inside the drain.\<close>

definition sample_later_tap_replayed :: cht_state where
  "sample_later_tap_replayed =
     behavior_contextual_hold_tap_timer_work_handler pipeline 0
       (snd (keycode_state_changed_listener plain (keycode_event 0x04 True 150)
          (snd (position_state_changed_listener plain (position_event 11 True 50)
             (sample_down (sample_config FLAVOR_BALANCED) 0)))))"

text \<open>
  At most one undecided hold-tap: every slot in use whose status is UNDECIDED is the slot
  \<^verbatim>\<open>undecided_hold_tap\<close> points to. An environment maintains this when none of its
  external calls breaks it; the module's own handlers, which the firmware re-enters, are
  shown to be such calls.
\<close>

definition one_undecided :: "cht_state \<Rightarrow> bool" where
  "one_undecided s \<longleftrightarrow>
     (\<forall>j < length (active_hold_taps s).
        position (ht s j) \<noteq> CHT_POSITION_NOT_USED \<and> status (ht s j) = STATUS_UNDECIDED \<longrightarrow>
        undecided_hold_tap s = Some j)"

definition maintains_one_undecided :: "env \<Rightarrow> bool" where
  "maintains_one_undecided e \<longleftrightarrow> (\<forall>a s. one_undecided s \<longrightarrow> one_undecided (snd (ext e a s)))"


section \<open>Properties\<close>

subsection \<open>Environments that leave the slots alone\<close>

lemma call_keeps: "keeps_hold_taps e \<Longrightarrow> active_hold_taps (snd (call e a s)) = active_hold_taps s"
  by (simp add: keeps_hold_taps_def call_def)

lemma invoke_binding_set_keeps:
  "keeps_hold_taps e \<Longrightarrow> active_hold_taps (snd (invoke_binding_set e bs ev p s)) = active_hold_taps s"
proof (induction bs arbitrary: s)
  case Nil
  then show ?case by simp
next
  case (Cons b bs)
  obtain r s' where c: "call e (Invoke b ev p) s = (r, s')"
    by (cases "call e (Invoke b ev p) s")
  with call_keeps[OF Cons.prems, of "Invoke b ev p" s]
  have "active_hold_taps s' = active_hold_taps s" by simp
  with Cons c show ?case by simp
qed

lemma press_binding_keeps:
  "keeps_hold_taps e \<Longrightarrow> active_hold_taps (snd (press_binding e i s)) = active_hold_taps s"
  by (simp add: press_binding_def press_hold_binding_def press_tap_binding_def
      release_hold_binding_def invoke_binding_set_keeps store_last_hold_tapped_def)

lemma release_binding_keeps:
  "keeps_hold_taps e \<Longrightarrow> active_hold_taps (snd (release_binding e i s)) = active_hold_taps s"
  by (simp add: release_binding_def release_tap_binding_def
      release_hold_binding_def invoke_binding_set_keeps)

lemma release_loop_keeps:
  "keeps_hold_taps e \<Longrightarrow> active_hold_taps (release_loop e ix s) = active_hold_taps s"
  by (induction ix arbitrary: s) (simp_all add: Let_def call_keeps)

lemma release_captured_events_keeps:
  "keeps_hold_taps e \<Longrightarrow> active_hold_taps (release_captured_events e s) = active_hold_taps s"
  by (simp add: release_captured_events_def release_loop_keeps)

lemma keeps_hold_taps_quiet: "keeps_hold_taps (quiet m)"
  by (simp add: keeps_hold_taps_def quiet_def)

subsection \<open>The status a decision moment leaves\<close>

lemma is_trigger_key_set: "is_trigger_key ks p \<longleftrightarrow> p \<in> set ks"
  by (induction ks) auto

lemma flavor_switch_table: "flavor_switch f dm STATUS_UNDECIDED = spec_flavor_table f dm"
  by (cases f; cases dm) (simp_all add: flavor_switch_def)

lemma status_decide_positional_hold:
  "i < length (active_hold_taps s) \<Longrightarrow>
   status (ht (decide_positional_hold i s) i) =
     (if positional_override (ht s i) then STATUS_TAP else status (ht s i))"
  by (auto simp add: decide_positional_hold_def positional_override_def ht_def upd_ht_def
      is_first_other_key_pressed_trigger_key_def is_trigger_key_set)

lemma decide_hold_tap_decided: "status (ht s i) \<noteq> STATUS_UNDECIDED \<Longrightarrow> decide_hold_tap e i dm s = s"
  by (simp add: decide_hold_tap_def)

lemma decide_hold_tap_status:
  assumes k: "keeps_hold_taps e" and i: "i < length (active_hold_taps s)"
    and u: "status (ht s i) = STATUS_UNDECIDED" and un: "undecided_hold_tap s = Some i"
  shows "status (ht (decide_hold_tap e i dm s) i) =
     (if spec_flavor_table (selected_flavor (ht s i)) dm = STATUS_UNDECIDED then STATUS_UNDECIDED
      else if positional_override (ht s i) then STATUS_TAP
      else spec_flavor_table (selected_flavor (ht s i)) dm)"
proof (cases "hold_while_undecided (config (ht s i)) \<and> dm = HT_KEY_DOWN")
  case True
  then have "decide_hold_tap e i dm s = snd (press_hold_binding e i s)"
    using u un by (simp add: decide_hold_tap_def)
  moreover have "active_hold_taps (snd (press_hold_binding e i s)) = active_hold_taps s"
    using k by (simp add: press_hold_binding_def invoke_binding_set_keeps)
  ultimately show ?thesis using True u by (simp add: ht_def)
next
  case False
  define s1 where
    "s1 = upd_ht i (\<lambda>h. h\<lparr>status := flavor_switch (selected_flavor h) dm (status h)\<rparr>) s"
  have len1: "i < length (active_hold_taps s1)"
    using i by (simp add: s1_def upd_ht_def)
  have st1: "status (ht s1 i) = spec_flavor_table (selected_flavor (ht s i)) dm"
    using i u by (simp add: s1_def upd_ht_def ht_def flavor_switch_table)
  have po1: "positional_override (ht s1 i) = positional_override (ht s i)"
    using i by (simp add: s1_def upd_ht_def ht_def positional_override_def)
  show ?thesis
  proof (cases "spec_flavor_table (selected_flavor (ht s i)) dm = STATUS_UNDECIDED")
    case True
    then have "decide_hold_tap e i dm s = s1"
      using False u un st1 by (auto simp add: decide_hold_tap_def Let_def s1_def)
    then show ?thesis using True st1 by simp
  next
    case dec: False
    define s3 where "s3 = (decide_positional_hold i s1)\<lparr>undecided_hold_tap := None\<rparr>"
    have eq: "decide_hold_tap e i dm s = release_captured_events e (snd (press_binding e i s3))"
      using False u un st1 dec by (auto simp add: decide_hold_tap_def Let_def s1_def s3_def)
    have "active_hold_taps (decide_hold_tap e i dm s) = active_hold_taps s3"
      using k by (simp add: eq release_captured_events_keeps press_binding_keeps)
    then have "status (ht (decide_hold_tap e i dm s) i) =
        status (ht (decide_positional_hold i s1) i)"
      by (simp add: ht_def s3_def)
    then show ?thesis
      using dec status_decide_positional_hold[OF len1] st1 po1 by simp
  qed
qed

text \<open>
  C1 (as amended). Feeding a decision moment to the undecided hold-tap sets its status
  from the flavor transition table: where the table has a dash, and at the key-down moment
  for which it has no column, the status stays UNDECIDED; where the table says TAP the
  status is TAP; where the table says HOLD_INTERRUPT or HOLD_TIMER the status is that hold
  status, unless the positional override applies, and then it is TAP. A hold-tap that is
  already decided is left as it is, with the rest of the state, by every decision moment.
  The status is read when \<^verbatim>\<open>decide_hold_tap\<close> returns, in an environment whose
  external calls do not write the slots.
\<close>

theorem decide_hold_tap_follows_flavor_table:
  "keeps_hold_taps e \<Longrightarrow> i < length (active_hold_taps s) \<Longrightarrow>
   (status (ht s i) = STATUS_UNDECIDED \<and> undecided_hold_tap s = Some i \<longrightarrow>
      status (ht (decide_hold_tap e i dm s) i) =
        (if spec_flavor_table (selected_flavor (ht s i)) dm = STATUS_UNDECIDED
         then STATUS_UNDECIDED
         else if positional_override (ht s i) then STATUS_TAP
         else spec_flavor_table (selected_flavor (ht s i)) dm)) \<and>
   (status (ht s i) \<noteq> STATUS_UNDECIDED \<longrightarrow> decide_hold_tap e i dm s = s)"
  by (simp add: decide_hold_tap_status decide_hold_tap_decided)

theorem decide_hold_tap_follows_flavor_table_witness:
  "status (ht (sample_down (sample_config FLAVOR_BALANCED) 0) 0) = STATUS_UNDECIDED \<and>
   status (ht (decide_hold_tap plain 0 HT_OTHER_KEY_UP (sample_down (sample_config FLAVOR_BALANCED) 0)) 0)
     = STATUS_HOLD_INTERRUPT \<and>
   decide_hold_tap plain 0 HT_KEY_UP
       (decide_hold_tap plain 0 HT_OTHER_KEY_UP (sample_down (sample_config FLAVOR_BALANCED) 0))
     = decide_hold_tap plain 0 HT_OTHER_KEY_UP (sample_down (sample_config FLAVOR_BALANCED) 0) \<and>
   positional_override (ht (sample_positional FLAVOR_BALANCED) 0) \<and>
   status (ht (decide_hold_tap plain 0 HT_OTHER_KEY_DOWN (sample_positional FLAVOR_BALANCED)) 0)
     = STATUS_UNDECIDED \<and>
   status (ht (decide_hold_tap plain 0 HT_KEY_UP (sample_positional FLAVOR_BALANCED)) 0)
     = STATUS_TAP \<and>
   status (ht (decide_hold_tap plain 0 HT_OTHER_KEY_UP (sample_positional FLAVOR_BALANCED)) 0)
     = STATUS_TAP"
proof -
  let ?s = "sample_down (sample_config FLAVOR_BALANCED) 0"
  let ?s' = "decide_hold_tap plain 0 HT_OTHER_KEY_UP ?s"
  let ?p = "sample_positional FLAVOR_BALANCED"
  have k: "keeps_hold_taps plain" by (simp add: plain_def keeps_hold_taps_quiet)
  have len: "0 < length (active_hold_taps ?s)" by code_simp
  have st: "status (ht ?s 0) = STATUS_UNDECIDED" by code_simp
  have un: "undecided_hold_tap ?s = Some 0" by code_simp
  have po: "\<not> positional_override (ht ?s 0)" by code_simp
  have fl: "selected_flavor (ht ?s 0) = FLAVOR_BALANCED" by code_simp
  have len': "0 < length (active_hold_taps ?s')" by code_simp
  have p: "0 < length (active_hold_taps ?p)" "status (ht ?p 0) = STATUS_UNDECIDED"
    "undecided_hold_tap ?p = Some 0" "selected_flavor (ht ?p 0) = FLAVOR_BALANCED"
    "positional_override (ht ?p 0)"
    by code_simp+
  from decide_hold_tap_follows_flavor_table[OF k len, of HT_OTHER_KEY_UP] st un po fl
  have a: "status (ht ?s' 0) = STATUS_HOLD_INTERRUPT" by simp
  from decide_hold_tap_follows_flavor_table[OF k len', of HT_KEY_UP] a
  have b: "decide_hold_tap plain 0 HT_KEY_UP ?s' = ?s'" by simp
  from decide_hold_tap_follows_flavor_table[OF k p(1), of HT_OTHER_KEY_DOWN] p
  have c: "status (ht (decide_hold_tap plain 0 HT_OTHER_KEY_DOWN ?p) 0) = STATUS_UNDECIDED"
    by simp
  from decide_hold_tap_follows_flavor_table[OF k p(1), of HT_KEY_UP] p
  have d: "status (ht (decide_hold_tap plain 0 HT_KEY_UP ?p) 0) = STATUS_TAP"
    by simp
  from decide_hold_tap_follows_flavor_table[OF k p(1), of HT_OTHER_KEY_UP] p
  have e: "status (ht (decide_hold_tap plain 0 HT_OTHER_KEY_UP ?p) 0) = STATUS_TAP"
    by simp
  from st a b p(5) c d e show ?thesis by simp
qed

theorem decide_hold_tap_follows_flavor_table_counterexample:
  "status (ht (sample_first_other FLAVOR_HOLD_PREFERRED) 0) = STATUS_UNDECIDED \<and>
   undecided_hold_tap (sample_first_other FLAVOR_HOLD_PREFERRED) = Some 0 \<and>
   selected_flavor (ht (sample_first_other FLAVOR_HOLD_PREFERRED) 0) = FLAVOR_HOLD_PREFERRED \<and>
   status (ht (decide_hold_tap plain 0 HT_OTHER_KEY_DOWN
                 (sample_first_other FLAVOR_HOLD_PREFERRED)) 0) = STATUS_TAP \<and>
   status (ht (sample_positional FLAVOR_HOLD_PREFERRED) 0) = STATUS_TAP \<and>
   spec_flavor_table FLAVOR_HOLD_PREFERRED HT_OTHER_KEY_DOWN = STATUS_HOLD_INTERRUPT"
  by code_simp


text \<open>
  C2. When a decision moment takes the undecided hold-tap out of UNDECIDED, the status
  \<^verbatim>\<open>decide_hold_tap\<close> leaves is TAP if the trigger position list is non-empty, a first
  other key is recorded and it is not in the list, whatever the flavor table chose; if one
  of the three conditions fails, the status is the table's.
\<close>

theorem positional_override_forces_tap:
  "keeps_hold_taps e \<Longrightarrow> i < length (active_hold_taps s) \<Longrightarrow>
   status (ht s i) = STATUS_UNDECIDED \<Longrightarrow> undecided_hold_tap s = Some i \<Longrightarrow>
   spec_flavor_table (selected_flavor (ht s i)) dm \<noteq> STATUS_UNDECIDED \<Longrightarrow>
   status (ht (decide_hold_tap e i dm s) i) =
     (if hold_trigger_key_positions (config (ht s i)) \<noteq> [] \<and>
         position_of_first_other_key_pressed (ht s i) \<noteq> - 1 \<and>
         position_of_first_other_key_pressed (ht s i) \<notin>
           set (hold_trigger_key_positions (config (ht s i)))
      then STATUS_TAP
      else spec_flavor_table (selected_flavor (ht s i)) dm)"
  by (simp add: decide_hold_tap_status positional_override_def)

theorem positional_override_forces_tap_witness:
  "status (ht (decide_hold_tap plain 0 HT_OTHER_KEY_UP (sample_first_other FLAVOR_BALANCED)) 0)
     = STATUS_TAP \<and>
   status (ht (decide_hold_tap plain 0 HT_TIMER_EVENT
                 (sample_down (positional_config FLAVOR_BALANCED) 0)) 0)
     = STATUS_HOLD_TIMER"
proof -
  let ?s = "sample_first_other FLAVOR_BALANCED"
  let ?t = "sample_down (positional_config FLAVOR_BALANCED) 0"
  have k: "keeps_hold_taps plain" by (simp add: plain_def keeps_hold_taps_quiet)
  have s: "0 < length (active_hold_taps ?s)" "status (ht ?s 0) = STATUS_UNDECIDED"
    "undecided_hold_tap ?s = Some 0" "selected_flavor (ht ?s 0) = FLAVOR_BALANCED"
    "hold_trigger_key_positions (config (ht ?s 0)) = [40, 41, 42]"
    "position_of_first_other_key_pressed (ht ?s 0) = 20"
    by code_simp+
  have t: "0 < length (active_hold_taps ?t)" "status (ht ?t 0) = STATUS_UNDECIDED"
    "undecided_hold_tap ?t = Some 0" "selected_flavor (ht ?t 0) = FLAVOR_BALANCED"
    "hold_trigger_key_positions (config (ht ?t 0)) = [40, 41, 42]"
    "position_of_first_other_key_pressed (ht ?t 0) = - 1"
    by code_simp+
  have a: "status (ht (decide_hold_tap plain 0 HT_OTHER_KEY_UP ?s) 0) = STATUS_TAP"
    using positional_override_forces_tap[OF k s(1) s(2) s(3), of HT_OTHER_KEY_UP] s(4,5,6)
    by simp
  have b: "status (ht (decide_hold_tap plain 0 HT_TIMER_EVENT ?t) 0) = STATUS_HOLD_TIMER"
    using positional_override_forces_tap[OF k t(1) t(2) t(3), of HT_TIMER_EVENT] t(4,5,6)
    by simp
  from a b show ?thesis by simp
qed

subsection \<open>Quick tap at keydown\<close>

lemma first_slot_Some: "first_slot P hs = Some i \<Longrightarrow> i < length hs \<and> P (hs ! i)"
proof (induction hs arbitrary: i)
  case Nil
  then show ?case by simp
next
  case (Cons h hs)
  then show ?case by (cases "P h") (auto split: option.splits)
qed

lemma spec_flavor_table_quick_tap: "spec_flavor_table f HT_QUICK_TAP = STATUS_TAP"
  by (cases f) simp_all

text \<open>The status an accepted keydown leaves, in terms of the two comparisons of
  \<^verbatim>\<open>is_quick_tap\<close>.\<close>

lemma on_hold_tap_binding_pressed_status:
  assumes k: "keeps_hold_taps e" and un: "undecided_hold_tap s = None"
    and st: "fst (store_hold_tap ev cfg s) = Some i"
  shows "status (ht (snd (on_hold_tap_binding_pressed e cfg ev up s)) i) =
     (if lt_timestamp (last_tapped s) + require_prior_idle_ms cfg > be_timestamp ev \<or>
         (lt_position (last_tapped s) = be_position ev \<and>
          lt_timestamp (last_tapped s) + quick_tap_ms cfg > be_timestamp ev)
      then STATUS_TAP else STATUS_UNDECIDED)"
proof -
  from st have fs: "first_slot (\<lambda>h. \<not> position h \<noteq> CHT_POSITION_NOT_USED) (active_hold_taps s) = Some i"
    by (simp add: store_hold_tap_def split: option.splits)
  then have i: "i < length (active_hold_taps s)" using first_slot_Some by blast
  define s1 where "s1 = snd (store_hold_tap ev cfg s)"
  define s3 where "s3 = (upd_ht i (\<lambda>h. h\<lparr>selected_flavor :=
       select_flavor cfg (be_timestamp ev) s1\<rparr>) s1)\<lparr>undecided_hold_tap := Some i\<rparr>"
  define s4 where "s4 = (if is_quick_tap i s3 then decide_hold_tap e i HT_QUICK_TAP s3 else s3)"
  define s5 where "s5 = decide_hold_tap e i HT_KEY_DOWN s4"
  have sh: "store_hold_tap ev cfg s = (Some i, s1)"
    using fs by (simp add: s1_def store_hold_tap_def)
  have len3: "i < length (active_hold_taps s3)"
    using i fs by (simp add: s3_def s1_def store_hold_tap_def upd_ht_def)
  have h3: "status (ht s3 i) = STATUS_UNDECIDED" "undecided_hold_tap s3 = Some i"
    "config (ht s3 i) = cfg" "position (ht s3 i) = be_position ev"
    "timestamp (ht s3 i) = be_timestamp ev" "last_tapped s3 = last_tapped s"
    using i fs by (simp_all add: s3_def s1_def store_hold_tap_def upd_ht_def ht_def)
  have q: "is_quick_tap i s3 \<longleftrightarrow>
      lt_timestamp (last_tapped s) + require_prior_idle_ms cfg > be_timestamp ev \<or>
      (lt_position (last_tapped s) = be_position ev \<and>
       lt_timestamp (last_tapped s) + quick_tap_ms cfg > be_timestamp ev)"
    by (auto simp add: is_quick_tap_def h3)
  have res: "snd (on_hold_tap_binding_pressed e cfg ev up s) =
      snd (call e (WorkSchedule i
        (let left = sint (word_of_int ((timestamp (ht s5 i) + tapping_term_ms cfg) - up) :: 32 word)
         in if left < 0 then 0 else left)) s5)"
    using un sh by (simp add: on_hold_tap_binding_pressed_def Let_def s3_def s4_def s5_def)
  have fin: "status (ht (snd (on_hold_tap_binding_pressed e cfg ev up s)) i) = status (ht s5 i)"
    using call_keeps[OF k] by (simp add: res ht_def)
  show ?thesis
  proof (cases "is_quick_tap i s3")
    case True
    then have "status (ht s4 i) = STATUS_TAP"
      using decide_hold_tap_status[OF k len3 h3(1) h3(2), of HT_QUICK_TAP]
      by (simp add: s4_def spec_flavor_table_quick_tap)
    then have "status (ht s5 i) = STATUS_TAP"
      by (simp add: s5_def decide_hold_tap_decided)
    with True q fin show ?thesis by simp
  next
    case False
    then have "s4 = s3" by (simp add: s4_def)
    then have "status (ht s5 i) = STATUS_UNDECIDED"
      using decide_hold_tap_status[OF k len3 h3(1) h3(2), of HT_KEY_DOWN] by (simp add: s5_def)
    with False q fin show ?thesis by simp
  qed
qed

text \<open>
  C3. The status a hold-tap keydown that is accepted (no other hold-tap is undecided and
  a slot is free) has when the keydown handler returns. When the last-tapped timestamp is
  not after the keydown's timestamp, the status is TAP if and only if (a) the last-tapped
  timestamp is within \<^verbatim>\<open>require_prior_idle_ms\<close> of the keydown's timestamp, or
  (b) the last-tapped position is this position and the last-tapped timestamp is within
  \<^verbatim>\<open>quick_tap_ms\<close>; otherwise it is still UNDECIDED. That is the claim. When the
  last-tapped timestamp is after the keydown's, the code does not measure the distance:
  the status is TAP as soon as the last-tapped timestamp plus
  \<^verbatim>\<open>require_prior_idle_ms\<close> is greater than the keydown's timestamp, which is so for
  every setting from zero upwards and for negative settings smaller than the distance.
  The failing input is \<open>sample_later_tap\<close>: the last tap is stamped 150, the replayed
  keydown 50, the setting is 0 or -1, and the status is TAP though the two timestamps are
  100 ms apart.
\<close>

theorem quick_tap_decided_at_keydown:
  assumes k: "keeps_hold_taps e" and un: "undecided_hold_tap s = None"
    and st: "fst (store_hold_tap ev cfg s) = Some i"
  shows "(lt_timestamp (last_tapped s) \<le> be_timestamp ev \<longrightarrow>
       status (ht (snd (on_hold_tap_binding_pressed e cfg ev up s)) i) =
         (if spec_quick_tap (last_tapped s) cfg (be_position ev) (be_timestamp ev)
          then STATUS_TAP else STATUS_UNDECIDED)) \<and>
     (be_timestamp ev < lt_timestamp (last_tapped s) + require_prior_idle_ms cfg \<longrightarrow>
       status (ht (snd (on_hold_tap_binding_pressed e cfg ev up s)) i) = STATUS_TAP)"
  unfolding on_hold_tap_binding_pressed_status[OF k un st]
  by (auto simp add: spec_quick_tap_def within_ms_def)

theorem quick_tap_decided_at_keydown_witness:
  "lt_timestamp (last_tapped sample_later_tap) = 150 \<and>
   raised (out sample_later_tap) = [ET_POS_CHANGED (position_event 11 True 50)] \<and>
   require_prior_idle_ms (sample_config FLAVOR_TAP_PREFERRED) = 0 \<and>
   \<not> spec_quick_tap (last_tapped sample_later_tap) (sample_config FLAVOR_TAP_PREFERRED) 11 50 \<and>
   status (ht (snd (on_hold_tap_binding_pressed plain (sample_config FLAVOR_TAP_PREFERRED)
                      (key_event 11 50) 200 sample_later_tap)) 1) = STATUS_TAP \<and>
   require_prior_idle_ms idle_off_config = - 1 \<and>
   \<not> spec_quick_tap (last_tapped sample_later_tap) idle_off_config 11 50 \<and>
   status (ht (snd (on_hold_tap_binding_pressed plain idle_off_config
                      (key_event 11 50) 200 sample_later_tap)) 1) = STATUS_TAP \<and>
   map position (take 2 (active_hold_taps sample_later_tap_replayed)) = [10, 11] \<and>
   status (ht sample_later_tap_replayed 1) = STATUS_TAP \<and>
   spec_quick_tap (last_tapped sample_tapped) (sample_config FLAVOR_BALANCED) 10 50 \<and>
   status (ht (snd (on_hold_tap_binding_pressed plain (sample_config FLAVOR_BALANCED)
                      (key_event 10 50) 50 sample_tapped)) 0) = STATUS_TAP \<and>
   \<not> spec_quick_tap (last_tapped sample_tapped) (sample_config FLAVOR_BALANCED) 10 100 \<and>
   status (ht (snd (on_hold_tap_binding_pressed plain (sample_config FLAVOR_BALANCED)
                      (key_event 10 100) 100 sample_tapped)) 0) = STATUS_UNDECIDED"
proof -
  let ?c = "sample_config FLAVOR_TAP_PREFERRED"
  let ?b = "sample_config FLAVOR_BALANCED"
  have k: "keeps_hold_taps plain" by (simp add: plain_def keeps_hold_taps_quiet)
  have l: "undecided_hold_tap sample_later_tap = None"
    "fst (store_hold_tap (key_event 11 50) ?c sample_later_tap) = Some 1"
    "lt_timestamp (last_tapped sample_later_tap) = 150"
    "raised (out sample_later_tap) = [ET_POS_CHANGED (position_event 11 True 50)]"
    "require_prior_idle_ms ?c = 0"
    "\<not> spec_quick_tap (last_tapped sample_later_tap) ?c 11 50"
    by code_simp+
  have m: "fst (store_hold_tap (key_event 11 50) idle_off_config sample_later_tap) = Some 1"
    "require_prior_idle_ms idle_off_config = - 1"
    "\<not> spec_quick_tap (last_tapped sample_later_tap) idle_off_config 11 50"
    by code_simp+
  have r: "map position (take 2 (active_hold_taps sample_later_tap_replayed)) = [10, 11]"
    "status (ht sample_later_tap_replayed 1) = STATUS_TAP"
    by code_simp+
  have t: "undecided_hold_tap sample_tapped = None"
    "fst (store_hold_tap (key_event 10 50) ?b sample_tapped) = Some 0"
    "fst (store_hold_tap (key_event 10 100) ?b sample_tapped) = Some 0"
    "lt_timestamp (last_tapped sample_tapped) = 0"
    "spec_quick_tap (last_tapped sample_tapped) ?b 10 50"
    "\<not> spec_quick_tap (last_tapped sample_tapped) ?b 10 100"
    by code_simp+
  have a: "status (ht (snd (on_hold_tap_binding_pressed plain ?c (key_event 11 50) 200
                              sample_later_tap)) 1) = STATUS_TAP"
    using quick_tap_decided_at_keydown[OF k l(1) l(2), of 200] l(3,5)
    by (simp add: key_event_def)
  have a': "status (ht (snd (on_hold_tap_binding_pressed plain idle_off_config (key_event 11 50) 200
                              sample_later_tap)) 1) = STATUS_TAP"
    using quick_tap_decided_at_keydown[OF k l(1) m(1), of 200] l(3) m(2)
    by (simp add: key_event_def)
  have b: "status (ht (snd (on_hold_tap_binding_pressed plain ?b (key_event 10 50) 50
                              sample_tapped)) 0) = STATUS_TAP"
    using quick_tap_decided_at_keydown[OF k t(1) t(2), of 50] t(4,5)
    by (simp add: key_event_def)
  have c: "status (ht (snd (on_hold_tap_binding_pressed plain ?b (key_event 10 100) 100
                              sample_tapped)) 0) = STATUS_UNDECIDED"
    using quick_tap_decided_at_keydown[OF k t(1) t(3), of 100] t(4,6)
    by (simp add: key_event_def)
  from l(3,4,5,6) a m(2,3) a' r t(5) b t(6) c show ?thesis by simp
qed

subsection \<open>The trace without re-entrancy\<close>

lemma invoke_binding_set_quiet:
  "invoke_binding_set (quiet m) bs ev p s = (0, s\<lparr>out := out s @ map (\<lambda>b. Invoke b ev p) bs\<rparr>)"
  by (induction bs arbitrary: s) (simp_all add: call_def quiet_def)

lemma release_loop_quiet:
  "undecided_hold_tap s = None \<Longrightarrow> captured_events s = P @ Q \<Longrightarrow>
   release_loop (quiet m) [length P ..< length P + length Q] s =
     s\<lparr>captured_events :=
          P @ replicate (length (takeWhile (\<lambda>c. c \<noteq> ET_NONE) Q)) ET_NONE @
            dropWhile (\<lambda>c. c \<noteq> ET_NONE) Q,
       out := out s @ map Raise (takeWhile (\<lambda>c. c \<noteq> ET_NONE) Q)\<rparr>"
proof (induction Q arbitrary: s P)
  case Nil
  then show ?case by simp
next
  case (Cons q Q)
  have ix: "[length P ..< length P + length (q # Q)] =
      length P # [length (P @ [ET_NONE]) ..< length (P @ [ET_NONE]) + length Q]"
    by (subst upt_conv_Cons) simp_all
  have at: "captured_events s ! length P = q" using Cons.prems by simp
  show ?case
  proof (cases "q = ET_NONE")
    case True
    then show ?thesis unfolding ix using Cons.prems at by simp
  next
    case False
    define s3 where "s3 = s\<lparr>captured_events := (P @ [ET_NONE]) @ Q, out := out s @ [Raise q]\<rparr>"
    have u3: "undecided_hold_tap s3 = None" "captured_events s3 = (P @ [ET_NONE]) @ Q"
      using Cons.prems by (simp_all add: s3_def)
    have step: "release_loop (quiet m) [length P ..< length P + length (q # Q)] s =
        release_loop (quiet m) [length (P @ [ET_NONE]) ..< length (P @ [ET_NONE]) + length Q] s3"
      using False Cons.prems at
      unfolding ix by (simp add: Let_def call_def quiet_def s3_def list_update_append)
    show ?thesis
      unfolding step Cons.IH[OF u3]
      using False by (simp add: s3_def replicate_app_Cons_same)
  qed
qed

lemma release_captured_events_quiet:
  "undecided_hold_tap s = None \<Longrightarrow>
   release_captured_events (quiet m) s =
     s\<lparr>captured_events :=
          replicate (length (pending s)) ET_NONE @
            dropWhile (\<lambda>c. c \<noteq> ET_NONE) (captured_events s),
       out := out s @ map Raise (pending s)\<rparr>"
  using release_loop_quiet[of s "[]" "captured_events s" m]
  by (simp add: release_captured_events_def pending_def)

subsection \<open>A release after the tapping term\<close>

lemma ht_upd_ht: "i < length (active_hold_taps s) \<Longrightarrow> ht (upd_ht i f s) i = f (ht s i)"
  by (simp add: ht_def upd_ht_def)


lemma flavor_switch_key_up: "flavor_switch f HT_KEY_UP old = STATUS_TAP"
  by (cases f) (simp_all add: flavor_switch_def)






subsection \<open>The pure tap\<close>

lemma initial_state_eq:
  "initial_state max_held max_captured =
     \<lparr>undecided_hold_tap = None,
      active_hold_taps = replicate max_held (zero_hold_tap\<lparr>position := CHT_POSITION_NOT_USED\<rparr>),
      captured_events = replicate max_captured ET_NONE,
      last_tapped = \<lparr>lt_position = word_of_int INT32_MIN, lt_timestamp = INT32_MIN\<rparr>,
      last_key = \<lparr>lk_keycode = 0, lk_timestamp = 0, lk_valid = False\<rparr>,
      init_first_run = False,
      out = []\<rparr>"
  by (simp add: initial_state_def behavior_contextual_hold_tap_init_def static_state_def)

lemma invocations_append: "invocations (xs @ ys) = invocations xs @ invocations ys"
  by (induction xs rule: invocations.induct) simp_all

lemma invocations_map_Invoke: "invocations (map (\<lambda>b. Invoke b ev p) bs) = map (\<lambda>b. Invoke b ev p) bs"
  by (induction bs) simp_all

lemma invocations_map_Raise: "invocations (map Raise cs) = []"
  by (induction cs) simp_all

lemma decide_tap_quiet:
  assumes i: "i < length (active_hold_taps s)"
    and u: "status (ht s i) = STATUS_UNDECIDED" and un: "undecided_hold_tap s = Some i"
    and dm: "dm = HT_KEY_UP \<or> dm = HT_QUICK_TAP"
    and nh: "\<not> hold_while_undecided (config (ht s i))"
  shows "decide_hold_tap (quiet m) i dm s =
     (upd_ht i (\<lambda>h. h\<lparr>status := STATUS_TAP\<rparr>) s)
       \<lparr>undecided_hold_tap := None,
        last_tapped := \<lparr>lt_position = position (ht s i), lt_timestamp = timestamp (ht s i)\<rparr>,
        captured_events := replicate (length (pending s)) ET_NONE @
                             dropWhile (\<lambda>c. c \<noteq> ET_NONE) (captured_events s),
        out := out s @
               map (\<lambda>b. Invoke b (binding_event (ht s i)) True) (tap_bindings (config (ht s i))) @
               map Raise (pending s)\<rparr>"
proof -
  have fs: "flavor_switch (selected_flavor (ht s i)) dm (status (ht s i)) = STATUS_TAP"
    using dm by (cases "selected_flavor (ht s i)") (auto simp add: flavor_switch_def)
  define s1 where "s1 = upd_ht i (\<lambda>h. h\<lparr>status := STATUS_TAP\<rparr>) s"
  have s1': "upd_ht i (\<lambda>h. h\<lparr>status := flavor_switch (selected_flavor h) dm (status h)\<rparr>) s = s1"
    using fs by (simp add: s1_def upd_ht_def ht_def)
  have h1: "ht s1 i = (ht s i)\<lparr>status := STATUS_TAP\<rparr>"
    using i by (simp add: s1_def ht_upd_ht)
  have dp: "decide_positional_hold i s1 = s1"
    using i by (simp add: decide_positional_hold_def h1 s1_def upd_ht_def ht_def)
  define s3 where "s3 = s1\<lparr>undecided_hold_tap := None\<rparr>"
  have h3: "ht s3 i = (ht s i)\<lparr>status := STATUS_TAP\<rparr>"
    using h1 by (simp add: s3_def ht_def)
  have be: "binding_event ((ht s i)\<lparr>status := STATUS_TAP\<rparr>) = binding_event (ht s i)"
    by (simp add: binding_event_def)
  define s4 where "s4 = snd (press_binding (quiet m) i s3)"
  have s4: "s4 = s3\<lparr>last_tapped := \<lparr>lt_position = position (ht s i),
                                      lt_timestamp = timestamp (ht s i)\<rparr>,
                    out := out s3 @ map (\<lambda>b. Invoke b (binding_event (ht s i)) True)
                                      (tap_bindings (config (ht s i)))\<rparr>"
    using nh by (simp add: s4_def press_binding_def press_tap_binding_def h3 be
        invoke_binding_set_quiet store_last_hold_tapped_def ht_def[of "_\<lparr>last_tapped := _\<rparr>"])
  have un4: "undecided_hold_tap s4 = None" by (simp add: s4 s3_def)
  have p4: "pending s4 = pending s" "captured_events s4 = captured_events s" "out s3 = out s"
    by (simp_all add: s4 s3_def s1_def pending_def upd_ht_def)
  have "decide_hold_tap (quiet m) i dm s = release_captured_events (quiet m) s4"
    using u un nh
    by (simp add: decide_hold_tap_def Let_def s1' h1 dp s3_def[symmetric] s4_def[symmetric])
  also have "\<dots> = s4\<lparr>captured_events := replicate (length (pending s)) ET_NONE @
                             dropWhile (\<lambda>c. c \<noteq> ET_NONE) (captured_events s),
                      out := out s4 @ map Raise (pending s)\<rparr>"
    using release_captured_events_quiet[OF un4, of m] by (simp add: p4)
  finally show ?thesis by (simp add: s4 s3_def s1_def p4 upd_ht_def)
qed

lemma flavor_switch_key_down: "flavor_switch f HT_KEY_DOWN old = old"
  by (cases f) (simp_all add: flavor_switch_def)

lemma upd_ht_id: "upd_ht i (\<lambda>h. h) s = s"
  by (simp add: upd_ht_def)

lemma release_tap_quiet:
  assumes f: "find_hold_tap (be_position ev) s = Some i"
    and u: "status (ht s i) = STATUS_UNDECIDED" and un: "undecided_hold_tap s = Some i"
    and early: "\<not> be_timestamp ev > timestamp (ht s i) + tapping_term_ms (config (ht s i))"
    and nh: "\<not> hold_while_undecided (config (ht s i))"
  shows "out (snd (on_hold_tap_binding_released (quiet m) ev s)) =
       out s @ [WorkCancel i] @
       map (\<lambda>b. Invoke b (binding_event (ht s i)) True) (tap_bindings (config (ht s i))) @
       map Raise (pending s) @
       map (\<lambda>b. Invoke b (binding_event (ht s i)) False) (tap_bindings (config (ht s i)))"
proof -
  from f have i: "i < length (active_hold_taps s)"
    using first_slot_Some by (fastforce simp add: find_hold_tap_def)
  define s1 where "s1 = s\<lparr>out := out s @ [WorkCancel i]\<rparr>"
  have c1: "call (quiet m) (WorkCancel i) s = (0, s1)"
    by (simp add: call_def quiet_def s1_def)
  have h1: "ht s1 i = ht s i" "active_hold_taps s1 = active_hold_taps s"
    "undecided_hold_tap s1 = Some i" "pending s1 = pending s"
    "captured_events s1 = captured_events s"
    using un by (simp_all add: s1_def ht_def pending_def)
  define d where "d = decide_hold_tap (quiet m) i HT_KEY_UP s1"
  have i1: "i < length (active_hold_taps s1)" using i h1 by simp
  have d: "d = (upd_ht i (\<lambda>h. h\<lparr>status := STATUS_TAP\<rparr>) s1)
       \<lparr>undecided_hold_tap := None,
        last_tapped := \<lparr>lt_position = position (ht s i), lt_timestamp = timestamp (ht s i)\<rparr>,
        captured_events := replicate (length (pending s)) ET_NONE @
                             dropWhile (\<lambda>c. c \<noteq> ET_NONE) (captured_events s),
        out := out s1 @
               map (\<lambda>b. Invoke b (binding_event (ht s i)) True) (tap_bindings (config (ht s i))) @
               map Raise (pending s)\<rparr>"
    unfolding d_def using decide_tap_quiet[OF i1, of HT_KEY_UP m] u un nh by (simp add: h1)
  have hd: "ht d i = (ht s i)\<lparr>status := STATUS_TAP\<rparr>"
    using i by (simp add: d ht_def upd_ht_def h1)
  have be: "binding_event ((ht s i)\<lparr>status := STATUS_TAP\<rparr>) = binding_event (ht s i)"
    by (simp add: binding_event_def)
  have r: "snd (on_hold_tap_binding_released (quiet m) ev s) =
      clear_hold_tap i
        (let s5 = snd (release_binding (quiet m) i d) in
         if hold_while_undecided (config (ht s5 i)) \<and> hold_while_undecided_linger (config (ht s5 i))
         then snd (release_hold_binding (quiet m) i s5) else s5)"
    using f early
    by (simp add: on_hold_tap_binding_released_def c1 Let_def h1 d_def[symmetric]
        hd decide_retro_tap_def EINPROGRESS_def)
  define s5 where "s5 = snd (release_binding (quiet m) i d)"
  have s5: "s5 = d\<lparr>out := out d @
       map (\<lambda>b. Invoke b (binding_event (ht s i)) False) (tap_bindings (config (ht s i)))\<rparr>"
    by (simp add: s5_def release_binding_def release_tap_binding_def hd be
        invoke_binding_set_quiet)
  have h5: "ht s5 i = (ht s i)\<lparr>status := STATUS_TAP\<rparr>"
    using hd by (simp add: s5 ht_def)
  have os5: "out s5 = out d @
       map (\<lambda>b. Invoke b (binding_event (ht s i)) False) (tap_bindings (config (ht s i)))"
    by (simp add: s5)
  have od: "out d = out s @ [WorkCancel i] @
       map (\<lambda>b. Invoke b (binding_event (ht s i)) True) (tap_bindings (config (ht s i))) @
       map Raise (pending s)"
    by (simp add: d s1_def)
  show ?thesis
    unfolding r s5_def[symmetric]
    using nh by (simp add: Let_def clear_hold_tap_def upd_ht_def h5 os5 od)
qed

text \<open>
  C8 (as amended). A BALANCED hold-tap with a tapping term of 200 ms (and without
  \<^verbatim>\<open>hold_while_undecided\<close>) is pressed at position 10 at time 0 on a freshly
  initialised module and released at time 50 with nothing in between. The module invokes
  the tap bindings pressed and then the tap bindings released, and nothing else; every
  invocation carries position 10 and the keydown timestamp 0. \<^verbatim>\<open>require_prior_idle_ms\<close>
  is a C \<^verbatim>\<open>int\<close>, so it is below \<open>2 ^ 31\<close>.
\<close>

theorem pure_tap_invokes_tap_bindings:
  assumes tt: "tapping_term_ms cfg = 200" and fl: "normal_flavor cfg = FLAVOR_BALANCED"
    and nh: "\<not> hold_while_undecided cfg" and idle: "require_prior_idle_ms cfg < 2 ^ 31"
    and n: "0 < max_held"
  shows "invocations (out (snd (on_hold_tap_binding_released (quiet m) (key_event 10 50)
            (snd (on_hold_tap_binding_pressed (quiet m) cfg (key_event 10 0) up
                   (initial_state max_held max_captured)))))) =
     map (\<lambda>b. Invoke b (key_event 10 0) True) (tap_bindings cfg) @
     map (\<lambda>b. Invoke b (key_event 10 0) False) (tap_bindings cfg)"
proof -
  let ?free = "zero_hold_tap\<lparr>position := CHT_POSITION_NOT_USED\<rparr>"
  define H where "H = ?free\<lparr>position := 10, source := 0, status := STATUS_UNDECIDED,
      config := cfg, timestamp := 0, position_of_first_other_key_pressed := - 1,
      selected_flavor := normal_flavor cfg\<rparr>"
  define s3 where "s3 = (initial_state max_held max_captured)
      \<lparr>active_hold_taps := H # replicate (max_held - 1) ?free, undecided_hold_tap := Some 0\<rparr>"
  from n obtain n' where n': "max_held = Suc n'" by (cases max_held) simp_all
  have sf: "select_flavor cfg 0 s = normal_flavor cfg" if "\<not> lk_valid (last_key s)" for s
    using that by (simp add: select_flavor_def cht_get_last_key_info_def Let_def)
  have st: "store_hold_tap (key_event 10 0) cfg (initial_state max_held max_captured) =
      (Some 0, (initial_state max_held max_captured)
         \<lparr>active_hold_taps := (H\<lparr>selected_flavor := normal_flavor cfg\<rparr>) # replicate n' ?free\<rparr>)"
    by (simp add: store_hold_tap_def initial_state_eq n' zero_hold_tap_def upd_ht_def
        key_event_def H_def)
  have h3: "ht s3 0 = H" "undecided_hold_tap s3 = Some 0" "0 < length (active_hold_taps s3)"
    "pending s3 = []" "out s3 = []"
    by (simp_all add: s3_def ht_def pending_def initial_state_eq)
  have H: "status H = STATUS_UNDECIDED" "config H = cfg" "timestamp H = 0" "position H = 10"
    "binding_event H = key_event 10 0"
    by (simp_all add: H_def binding_event_def key_event_def zero_hold_tap_def)
  have lt3: "last_tapped s3 = \<lparr>lt_position = word_of_int INT32_MIN, lt_timestamp = INT32_MIN\<rparr>"
    by (simp add: s3_def initial_state_eq)
  have nq: "\<not> is_quick_tap 0 s3"
    using idle by (simp add: is_quick_tap_def h3 H lt3 INT32_MIN_def)
  have kd: "decide_hold_tap (quiet m) 0 HT_KEY_DOWN s3 = s3"
    using nh by (simp add: decide_hold_tap_def h3 H Let_def flavor_switch_key_down upd_ht_id)
  have pr: "snd (on_hold_tap_binding_pressed (quiet m) cfg (key_event 10 0) up
                   (initial_state max_held max_captured)) =
      s3\<lparr>out := [WorkSchedule 0
                    (let left = sint (word_of_int ((0 + tapping_term_ms cfg) - up) :: 32 word)
                     in if left < 0 then 0 else left)]\<rparr>" (is "_ = ?p")
    using nh idle
    by (simp add: on_hold_tap_binding_pressed_def initial_state_eq store_hold_tap_def n'
        upd_ht_def ht_def select_flavor_def cht_get_last_key_info_def is_quick_tap_def
        decide_hold_tap_def flavor_switch_key_down Let_def call_def quiet_def key_event_def
        H_def s3_def zero_hold_tap_def INT32_MIN_def CHT_POSITION_NOT_USED_def)
  have p: "ht (s3\<lparr>out := x\<rparr>) 0 = H" "undecided_hold_tap (s3\<lparr>out := x\<rparr>) = Some 0"
    "pending (s3\<lparr>out := x\<rparr>) = []" for x
    using h3 by (simp_all add: ht_def pending_def)
  have f: "find_hold_tap (be_position (key_event 10 50)) (s3\<lparr>out := x\<rparr>) = Some 0" for x
    by (simp add: find_hold_tap_def s3_def key_event_def H)
  have early: "\<not> be_timestamp (key_event 10 50) >
      timestamp (ht (s3\<lparr>out := x\<rparr>) 0) + tapping_term_ms (config (ht (s3\<lparr>out := x\<rparr>) 0))" for x
    using tt by (simp add: p H key_event_def)
  show ?thesis
    unfolding pr
    using release_tap_quiet[OF f _ p(2) early, where m = m] nh
    by (simp add: p H invocations_append invocations_map_Invoke)
qed

theorem pure_tap_invokes_tap_bindings_witness:
  "invocations (out sample_pure_tap) =
     [Invoke kp_A (key_event 10 0) True, Invoke kp_A (key_event 10 0) False]"
proof -
  have h: "tapping_term_ms (sample_config FLAVOR_BALANCED) = 200"
    "normal_flavor (sample_config FLAVOR_BALANCED) = FLAVOR_BALANCED"
    "\<not> hold_while_undecided (sample_config FLAVOR_BALANCED)"
    "require_prior_idle_ms (sample_config FLAVOR_BALANCED) < 2 ^ 31"
    "0 < (10::nat)"
    by (simp_all add: sample_config_def)
  from pure_tap_invokes_tap_bindings[OF h, of hid_is_mod 0 40]
  show ?thesis
    by (simp add: sample_pure_tap_def sample_down_def plain_def sample_config_def)
qed

theorem pure_tap_invokes_tap_bindings_counterexample:
  "out sample_pure_tap =
     [WorkSchedule 0 200, WorkCancel 0,
      Invoke kp_A (key_event 10 0) True, Invoke kp_A (key_event 10 0) False] \<and>
   be_timestamp (key_event 10 0) = 0 \<and>
   Invoke kp_A (key_event 10 50) True \<notin> set (out sample_pure_tap) \<and>
   Invoke kp_A (key_event 10 50) False \<notin> set (out sample_pure_tap)"
  by code_simp

subsection \<open>The last-tapped timestamp\<close>

lemma store_last_tapped_mono:
  "lt_timestamp (last_tapped s) \<le> lt_timestamp (last_tapped (store_last_tapped ts s))"
  by (simp add: store_last_tapped_def)

text \<open>
  C7. The code at the failing input: a hold-tap goes down at time 100, a press of a
  non-modifier key stamped 150 reaches the keycode listener, and the hold-tap is released
  at time 160 and decided a tap. \<^verbatim>\<open>store_last_tapped\<close> stores 150;
  \<^verbatim>\<open>store_last_hold_tapped\<close> then stores the keydown timestamp 100, which is
  smaller.
\<close>

theorem last_tapped_timestamp_decreases:
  "lt_timestamp (last_tapped sample_key_after_down) = 150 \<and>
   lt_timestamp (last_tapped sample_tap_after_key) = 100"
  by code_simp

subsection \<open>A full capture buffer\<close>

lemma capture_slots_full: "ET_NONE \<notin> set es \<Longrightarrow> capture_slots d es = None"
  by (induction es) auto

lemma capture_event_full:
  "ET_NONE \<notin> set (captured_events s) \<Longrightarrow> capture_event d s = (- ENOMEM, s)"
  by (simp add: capture_event_def capture_slots_full)

lemma sample_full_reached: "sample_filling = sample_full"
  by code_simp

text \<open>
  C4. The code at the failing input: the capture buffer holds forty events, none of its
  slots is free, and the key at position 60 goes down while the hold-tap at position 10 is
  undecided. The listener reports the event as captured and returns the state it was
  given: the event is in no slot, no error is logged, nothing is raised. When the hold-tap
  is released, the drain raises the forty buffered events and not the press of key 60.
\<close>

theorem capture_overflow_drops_event:
  "length (captured_events sample_full) = 40 \<and>
   ET_NONE \<notin> set (captured_events sample_full) \<and>
   sample_overflow = (ZMK_EV_EVENT_CAPTURED, sample_full) \<and>
   raised (out sample_overflow_released) = captured_events sample_full \<and>
   ET_POS_CHANGED (position_event 60 True 20) \<notin> set (raised (out sample_overflow_released))"
  by code_simp

subsection \<open>The magic key falls back to repeating\<close>

text \<open>
  C9. The code at the fallback: when the alternate for the last key is the repeat sentinel
  \<^verbatim>\<open>QK_REP\<close> (and the keymap's macro handler passes it on, as it does for every
  keycode that is not one of its macros), the magic key consumes the event and calls
  \<^verbatim>\<open>tap_code16\<close> with the last key alone. The remembered modifiers are read, given
  to the mapping and nowhere else: they are not part of what is tapped. The failing input
  is the memory after a shifted A on the Lulu keymap, for which the code taps what it taps
  after a plain A, a keycode without any modifier bit.
\<close>

theorem magic_repeat_fallback_taps_last_key:
  "get_alt_repeat_key_keycode_user km (unwrap_tap_keycode (last_keycode mem)) (last_mods mem)
     = QK_REP \<Longrightarrow>
   process_magic_record km QK_REP True = (True, []) \<Longrightarrow>
   handle_magic_tap km mem keycode =
     (False, [Tap_code16 (unwrap_tap_keycode (last_keycode mem))])"
  by (simp add: handle_magic_tap_def Let_def)

theorem magic_repeat_fallback_taps_last_key_witness:
  "last_keycode after_shift_a = KC_A \<and>
   last_mods after_shift_a = 0x02 \<and>
   handle_magic_tap (lulu BASE_PRIMARY) after_shift_a QK_AREP = (False, [Tap_code16 KC_A]) \<and>
   last_mods after_plain_a = 0x00 \<and>
   handle_magic_tap (lulu BASE_PRIMARY) after_plain_a QK_AREP = (False, [Tap_code16 KC_A]) \<and>
   drop_bit 8 KC_A = 0"
proof -
  have a: "get_alt_repeat_key_keycode_user (lulu BASE_PRIMARY)
      (unwrap_tap_keycode (last_keycode after_shift_a)) (last_mods after_shift_a) = QK_REP"
    "get_alt_repeat_key_keycode_user (lulu BASE_PRIMARY)
      (unwrap_tap_keycode (last_keycode after_plain_a)) (last_mods after_plain_a) = QK_REP"
    by code_simp+
  have b: "process_magic_record (lulu BASE_PRIMARY) QK_REP True = (True, [])"
    by code_simp
  have c: "unwrap_tap_keycode (last_keycode after_shift_a) = KC_A"
    "unwrap_tap_keycode (last_keycode after_plain_a) = KC_A"
    "last_keycode after_shift_a = KC_A" "last_mods after_shift_a = 0x02"
    "last_mods after_plain_a = 0x00" "drop_bit 8 KC_A = (0 :: 16 word)"
    by code_simp+
  from magic_repeat_fallback_taps_last_key[OF a(1) b, of QK_AREP]
    magic_repeat_fallback_taps_last_key[OF a(2) b, of QK_AREP] c
  show ?thesis by simp
qed

subsection \<open>The order of the drain\<close>

lemma raised_append: "raised (xs @ ys) = raised xs @ raised ys"
  by (induction xs rule: raised.induct) simp_all

lemma capture_slots_first_free:
  "ET_NONE \<notin> set R \<Longrightarrow> capture_slots c (R @ ET_NONE # rest) = Some (R @ c # rest)"
  by (induction R) auto

lemma takeWhile_gap:
  "ET_NONE \<notin> set R \<Longrightarrow>
   takeWhile (\<lambda>c. c \<noteq> ET_NONE) (R @ replicate g ET_NONE @ ET_NONE # Q) = R"
  by (induction R) (auto simp add: replicate_app_Cons_same)

lemma release_loop_step:
  "captured_events s ! i \<noteq> ET_NONE \<Longrightarrow>
   release_loop e (i # ix) s =
     release_loop e ix
       (snd (call e (Raise (captured_events s ! i))
          (let s1 = s\<lparr>captured_events := (captured_events s)[i := ET_NONE]\<rparr>
           in if undecided_hold_tap s1 \<noteq> None then snd (call e (Msleep 10) s1) else s1)))"
  by (simp add: Let_def)

lemma out_capture_event: "out (snd (capture_event c s)) = out s"
  by (simp add: capture_event_def split: option.splits)

lemma capture_event_buf:
  "captured_events X = R @ ET_NONE # rest \<Longrightarrow> ET_NONE \<notin> set R \<Longrightarrow>
   captured_events (snd (capture_event c X)) = R @ c # rest"
  by (simp add: capture_event_def capture_slots_first_free)

lemma release_loop_recaptures:
  assumes rc: "recaptures e"
  shows "ET_NONE \<notin> set R \<Longrightarrow> captured_events s = R @ replicate g ET_NONE @ Q \<Longrightarrow>
     raised (out (release_loop e [length R + g ..< length R + g + length Q] s)) =
       raised (out s) @ takeWhile (\<lambda>c. c \<noteq> ET_NONE) Q \<and>
     (\<exists>R'. subseq R' (takeWhile (\<lambda>c. c \<noteq> ET_NONE) Q) \<and>
           pending (release_loop e [length R + g ..< length R + g + length Q] s) = R @ R')"
proof (induction Q arbitrary: s R g)
  case Nil
  have "takeWhile (\<lambda>c. c \<noteq> ET_NONE) (R @ replicate g ET_NONE) = R"
    using Nil.prems(1) by (induction R) auto
  then show ?case using Nil.prems by (simp add: pending_def)
next
  case (Cons q Q)
  let ?k = "length R + g"
  have ix: "[?k ..< ?k + length (q # Q)] = ?k # [Suc ?k ..< Suc ?k + length Q]"
    by (subst upt_conv_Cons) simp_all
  have at: "captured_events s ! ?k = q"
    using Cons.prems(2) by (simp add: nth_append)
  show ?case
  proof (cases "q = ET_NONE")
    case True
    then show ?thesis
      unfolding ix using Cons.prems at takeWhile_gap[OF Cons.prems(1), of g Q]
      by (simp add: pending_def)
  next
    case False
    define s1 where "s1 = s\<lparr>captured_events := (captured_events s)[?k := ET_NONE]\<rparr>"
    define s2 where
      "s2 = (if undecided_hold_tap s1 \<noteq> None then snd (call e (Msleep 10) s1) else s1)"
    define s3 where "s3 = snd (call e (Raise q) s2)"
    have b1: "captured_events s1 = R @ replicate (Suc g) ET_NONE @ Q"
      using Cons.prems(2)
      by (simp add: s1_def list_update_append replicate_app_Cons_same)
    have b2: "captured_events s2 = captured_events s1" "raised (out s2) = raised (out s)"
      using rc by (simp_all add: s2_def call_def recaptures_def s1_def raised_append)
    have o3: "raised (out s3) = raised (out s) @ [q]"
      using rc b2 by (simp add: s3_def call_def recaptures_def raised_append)
    have step: "release_loop e [?k ..< ?k + length (q # Q)] s =
        release_loop e [Suc ?k ..< Suc ?k + length Q] s3"
      unfolding ix s3_def s2_def s1_def using False at
      by (subst release_loop_step) (simp_all add: Let_def del: upt_Suc)
    have r3: "captured_events (snd (ext e (Raise q) X)) = captured_events X \<or>
        captured_events (snd (ext e (Raise q) X)) = captured_events (snd (capture_event q X))" for X
      using rc unfolding recaptures_def by blast
    have bx: "captured_events (s2\<lparr>out := out s2 @ [Raise q]\<rparr>) = R @ ET_NONE # replicate g ET_NONE @ Q"
      using b1 b2 by (simp add: replicate_app_Cons_same)
    have cx: "captured_events (snd (capture_event q (s2\<lparr>out := out s2 @ [Raise q]\<rparr>))) =
        R @ q # replicate g ET_NONE @ Q"
      using capture_event_buf[OF bx Cons.prems(1)] .
    have "captured_events s3 = R @ ET_NONE # replicate g ET_NONE @ Q \<or>
          captured_events s3 = R @ q # replicate g ET_NONE @ Q"
      using r3[of "s2\<lparr>out := out s2 @ [Raise q]\<rparr>"] bx cx
      unfolding s3_def call_def by presburger
    then consider (kept) "captured_events s3 = R @ replicate (Suc g) ET_NONE @ Q"
      | (again) "captured_events s3 = (R @ [q]) @ replicate g ET_NONE @ Q"
      by (auto simp add: replicate_app_Cons_same)
    then show ?thesis
    proof cases
      case kept
      from Cons.IH[OF Cons.prems(1) kept] obtain R' where
        r: "raised (out (release_loop e [Suc ?k ..< Suc ?k + length Q] s3)) =
              raised (out s3) @ takeWhile (\<lambda>c. c \<noteq> ET_NONE) Q"
        and s: "subseq R' (takeWhile (\<lambda>c. c \<noteq> ET_NONE) Q)"
        and p: "pending (release_loop e [Suc ?k ..< Suc ?k + length Q] s3) = R @ R'"
        by auto
      from s have "subseq R' (q # takeWhile (\<lambda>c. c \<noteq> ET_NONE) Q)"
        by (rule list_emb_Cons)
      with r p o3 False show ?thesis unfolding step by auto
    next
      case again
      have nn: "ET_NONE \<notin> set (R @ [q])" using Cons.prems(1) False by auto
      from Cons.IH[OF nn again] obtain R' where
        r: "raised (out (release_loop e [Suc ?k ..< Suc ?k + length Q] s3)) =
              raised (out s3) @ takeWhile (\<lambda>c. c \<noteq> ET_NONE) Q"
        and s: "subseq R' (takeWhile (\<lambda>c. c \<noteq> ET_NONE) Q)"
        and p: "pending (release_loop e [Suc ?k ..< Suc ?k + length Q] s3) = (R @ [q]) @ R'"
        by auto
      from s have "subseq (q # R') (q # takeWhile (\<lambda>c. c \<noteq> ET_NONE) Q)"
        by simp
      with r p o3 False show ?thesis unfolding step by auto
    qed
  qed
qed

lemma capture_event_first_free:
  "ET_NONE \<in> set (captured_events s) \<Longrightarrow>
   captured_events (snd (capture_event c s)) =
     pending s @ c # drop (Suc (length (pending s))) (captured_events s)"
proof -
  assume a: "ET_NONE \<in> set (captured_events s)"
  let ?P = "takeWhile (\<lambda>c. c \<noteq> ET_NONE) (captured_events s)"
  let ?D = "dropWhile (\<lambda>c. c \<noteq> ET_NONE) (captured_events s)"
  from a have "?D \<noteq> []" by auto
  moreover have "?D \<noteq> [] \<Longrightarrow> hd ?D = ET_NONE" using hd_dropWhile[of "\<lambda>c. c \<noteq> ET_NONE"] by blast
  ultimately obtain rest where d: "?D = ET_NONE # rest" by (cases ?D) auto
  have split: "captured_events s = ?P @ ET_NONE # rest"
    using takeWhile_dropWhile_id[of "\<lambda>c. c \<noteq> ET_NONE" "captured_events s"] d by simp
  have nn: "ET_NONE \<notin> set ?P" using set_takeWhileD by fastforce
  have "capture_slots c (captured_events s) = Some (?P @ c # rest)"
    using capture_slots_first_free[OF nn, of c rest] split by simp
  moreover have "drop (Suc (length ?P)) (captured_events s) = rest"
    by (subst split) simp
  ultimately show ?thesis by (simp add: capture_event_def pending_def)
qed

text \<open>
  C6. \<^verbatim>\<open>capture_event\<close> stores an event in the first free slot, behind the events that
  wait. A drain raises the waiting events front first, in exactly the order of the buffer,
  and this holds in every environment that answers a raised event by capturing it again
  (because a new undecided hold-tap appeared) or by leaving the buffer alone: the events
  not yet raised keep their places, and the events captured again wait in the buffer in
  their old relative order.
\<close>

theorem captured_events_released_in_order:
  assumes rc: "recaptures e" and un: "undecided_hold_tap s = None"
  shows "raised (out (release_captured_events e s)) = raised (out s) @ pending s \<and>
     subseq (pending (release_captured_events e s)) (pending s) \<and>
     (ET_NONE \<in> set (captured_events s) \<longrightarrow>
        captured_events (snd (capture_event c s)) =
          pending s @ c # drop (Suc (length (pending s))) (captured_events s))"
  using release_loop_recaptures[OF rc, of "[]" s 0 "captured_events s"] un
  by (auto simp add: release_captured_events_def pending_def capture_event_first_free[unfolded pending_def])

lemma recaptures_requeue: "recaptures requeue"
  by (auto simp add: recaptures_def requeue_def out_capture_event split: action.splits)

theorem captured_events_released_in_order_witness:
  "pending sample_three =
     [ET_POS_CHANGED (position_event 11 True 5), ET_POS_CHANGED (position_event 20 True 10),
      ET_POS_CHANGED (position_event 20 False 15)] \<and>
   raised (out (release_captured_events requeue sample_three)) =
     [ET_POS_CHANGED (position_event 11 True 5), ET_POS_CHANGED (position_event 20 True 10),
      ET_POS_CHANGED (position_event 20 False 15)] \<and>
   pending (release_captured_events requeue sample_three) =
     [ET_POS_CHANGED (position_event 20 True 10), ET_POS_CHANGED (position_event 20 False 15)] \<and>
   raised (out sample_nested) =
     [ET_POS_CHANGED (position_event 11 True 5), ET_POS_CHANGED (position_event 20 True 10),
      ET_POS_CHANGED (position_event 20 False 15)] \<and>
   pending sample_nested =
     [ET_POS_CHANGED (position_event 20 True 10), ET_POS_CHANGED (position_event 20 False 15)] \<and>
   undecided_hold_tap sample_nested = Some 1"
proof -
  have un: "undecided_hold_tap sample_three = None" by code_simp
  have p: "pending sample_three =
     [ET_POS_CHANGED (position_event 11 True 5), ET_POS_CHANGED (position_event 20 True 10),
      ET_POS_CHANGED (position_event 20 False 15)]" by code_simp
  have o: "out sample_three = []" by code_simp
  have q: "pending (release_captured_events requeue sample_three) =
     [ET_POS_CHANGED (position_event 20 True 10), ET_POS_CHANGED (position_event 20 False 15)]"
    by code_simp
  have n: "raised (out sample_nested) =
     [ET_POS_CHANGED (position_event 11 True 5), ET_POS_CHANGED (position_event 20 True 10),
      ET_POS_CHANGED (position_event 20 False 15)]"
    "pending sample_nested =
     [ET_POS_CHANGED (position_event 20 True 10), ET_POS_CHANGED (position_event 20 False 15)]"
    "undecided_hold_tap sample_nested = Some 1"
    by code_simp+
  from captured_events_released_in_order[OF recaptures_requeue un] p o q n
  show ?thesis by simp
qed

subsection \<open>At most one undecided hold-tap\<close>

lemma one_undecided_cong:
  "active_hold_taps s' = active_hold_taps s \<Longrightarrow> undecided_hold_tap s' = undecided_hold_tap s \<Longrightarrow>
   one_undecided s' = one_undecided s"
  by (simp add: one_undecided_def ht_def)

lemma one_undecided_call:
  "maintains_one_undecided e \<Longrightarrow> one_undecided s \<Longrightarrow> one_undecided (snd (call e a s))"
proof -
  assume m: "maintains_one_undecided e" and s: "one_undecided s"
  have "one_undecided (s\<lparr>out := out s @ [a]\<rparr>)"
    using s by (simp add: one_undecided_cong[of "s\<lparr>out := out s @ [a]\<rparr>" s])
  with m show ?thesis by (simp add: maintains_one_undecided_def call_def)
qed

lemma one_undecided_invoke_binding_set:
  "maintains_one_undecided e \<Longrightarrow> one_undecided s \<Longrightarrow>
   one_undecided (snd (invoke_binding_set e bs ev p s))"
proof (induction bs arbitrary: s)
  case Nil
  then show ?case by simp
next
  case (Cons b bs)
  obtain r s' where c: "call e (Invoke b ev p) s = (r, s')"
    by (cases "call e (Invoke b ev p) s")
  with one_undecided_call[OF Cons.prems, of "Invoke b ev p"] have "one_undecided s'" by simp
  with Cons c show ?case by simp
qed

lemma one_undecided_store_last_hold_tapped:
  "one_undecided (store_last_hold_tapped i s) = one_undecided s"
  by (rule one_undecided_cong) (simp_all add: store_last_hold_tapped_def)

lemma one_undecided_press_binding:
  "maintains_one_undecided e \<Longrightarrow> one_undecided s \<Longrightarrow> one_undecided (snd (press_binding e i s))"
  by (simp add: press_binding_def press_hold_binding_def press_tap_binding_def
      release_hold_binding_def one_undecided_invoke_binding_set
      one_undecided_store_last_hold_tapped)

lemma one_undecided_release_hold_binding:
  "maintains_one_undecided e \<Longrightarrow> one_undecided s \<Longrightarrow>
   one_undecided (snd (release_hold_binding e i s))"
  by (simp add: release_hold_binding_def one_undecided_invoke_binding_set)

lemma one_undecided_release_binding:
  "maintains_one_undecided e \<Longrightarrow> one_undecided s \<Longrightarrow> one_undecided (snd (release_binding e i s))"
  by (simp add: release_binding_def release_tap_binding_def release_hold_binding_def
      one_undecided_invoke_binding_set)

lemma one_undecided_release_loop:
  "maintains_one_undecided e \<Longrightarrow> one_undecided s \<Longrightarrow> one_undecided (release_loop e ix s)"
proof (induction ix arbitrary: s)
  case Nil
  then show ?case by simp
next
  case (Cons i ix)
  let ?s1 = "s\<lparr>captured_events := (captured_events s)[i := ET_NONE]\<rparr>"
  have 1: "one_undecided ?s1"
    using Cons.prems(2) by (simp add: one_undecided_cong[of ?s1 s])
  then have 2: "one_undecided (snd (call e (Msleep 10) ?s1))"
    using Cons.prems(1) by (simp add: one_undecided_call)
  show ?case
    using Cons.IH[OF Cons.prems(1)] Cons.prems 1 2
    by (simp add: Let_def one_undecided_call)
qed

lemma one_undecided_release_captured_events:
  "maintains_one_undecided e \<Longrightarrow> one_undecided s \<Longrightarrow>
   one_undecided (release_captured_events e s)"
  by (simp add: release_captured_events_def one_undecided_release_loop)

text \<open>Rewriting a slot without making it an undecided slot in use keeps the invariant.\<close>

lemma one_undecided_upd_ht:
  assumes "one_undecided s"
    and "position (f (ht s i)) \<noteq> CHT_POSITION_NOT_USED \<and> status (f (ht s i)) = STATUS_UNDECIDED \<Longrightarrow>
         position (ht s i) \<noteq> CHT_POSITION_NOT_USED \<and> status (ht s i) = STATUS_UNDECIDED"
  shows "one_undecided (upd_ht i f s)"
  unfolding one_undecided_def
proof (intro allI impI)
  fix j
  assume j: "j < length (active_hold_taps (upd_ht i f s))"
    and u: "position (ht (upd_ht i f s) j) \<noteq> CHT_POSITION_NOT_USED \<and>
            status (ht (upd_ht i f s) j) = STATUS_UNDECIDED"
  have jl: "j < length (active_hold_taps s)" using j by (simp add: upd_ht_def)
  have "position (ht s j) \<noteq> CHT_POSITION_NOT_USED \<and> status (ht s j) = STATUS_UNDECIDED"
  proof (cases "j = i")
    case True
    then have "ht (upd_ht i f s) j = f (ht s i)" using jl by (simp add: ht_upd_ht)
    with u assms(2) True show ?thesis by simp
  next
    case False
    then have "ht (upd_ht i f s) j = ht s j" by (simp add: ht_def upd_ht_def)
    with u show ?thesis by simp
  qed
  with assms(1) jl have "undecided_hold_tap s = Some j" by (simp add: one_undecided_def)
  then show "undecided_hold_tap (upd_ht i f s) = Some j" by (simp add: upd_ht_def)
qed

text \<open>Once the undecided hold-tap is decided, no slot in use is undecided, and the
  pointer may be cleared.\<close>

lemma one_undecided_decided:
  assumes inv: "one_undecided s" and un: "undecided_hold_tap s = Some i"
    and st: "status (ht s i) \<noteq> STATUS_UNDECIDED"
  shows "one_undecided (s\<lparr>undecided_hold_tap := None\<rparr>)"
  unfolding one_undecided_def
proof (intro allI impI)
  fix j
  assume j: "j < length (active_hold_taps (s\<lparr>undecided_hold_tap := None\<rparr>))"
    and u: "position (ht (s\<lparr>undecided_hold_tap := None\<rparr>) j) \<noteq> CHT_POSITION_NOT_USED \<and>
            status (ht (s\<lparr>undecided_hold_tap := None\<rparr>) j) = STATUS_UNDECIDED"
  then have "undecided_hold_tap s = Some j"
    using inv by (simp add: one_undecided_def ht_def)
  with un st u have False by (simp add: ht_def)
  then show "undecided_hold_tap (s\<lparr>undecided_hold_tap := None\<rparr>) = Some j" ..
qed

lemma flavor_switch_undecided:
  "flavor_switch f dm old = STATUS_UNDECIDED \<Longrightarrow> old = STATUS_UNDECIDED"
  by (cases f; cases dm) (simp_all add: flavor_switch_def)

lemma one_undecided_decide_hold_tap:
  assumes m: "maintains_one_undecided e" and inv: "one_undecided s"
  shows "one_undecided (decide_hold_tap e i dm s)"
proof -
  define s1 where
    "s1 = upd_ht i (\<lambda>h. h\<lparr>status := flavor_switch (selected_flavor h) dm (status h)\<rparr>) s"
  define s2 where "s2 = decide_positional_hold i s1"
  have i1: "one_undecided s1"
    unfolding s1_def using inv
    by (rule one_undecided_upd_ht) (auto dest: flavor_switch_undecided)
  have i2: "one_undecided s2"
    unfolding s2_def decide_positional_hold_def using i1
    by (auto intro: one_undecided_upd_ht)
  have u2: "undecided_hold_tap s2 = undecided_hold_tap s"
    by (simp add: s2_def s1_def decide_positional_hold_def upd_ht_def)
  have d2: "status (ht s2 i) \<noteq> STATUS_UNDECIDED" if "status (ht s1 i) \<noteq> STATUS_UNDECIDED"
  proof (cases "s2 = s1")
    case True
    with that show ?thesis by simp
  next
    case False
    then have e: "s2 = upd_ht i (\<lambda>h. h\<lparr>status := STATUS_TAP\<rparr>) s1"
      by (simp add: s2_def decide_positional_hold_def split: if_splits)
    show ?thesis
    proof (cases "i < length (active_hold_taps s1)")
      case True
      then show ?thesis by (simp add: e ht_upd_ht)
    next
      case False
      then have "s2 = s1" by (simp add: e upd_ht_def not_less list_update_beyond)
      with that show ?thesis by simp
    qed
  qed
  show ?thesis
  proof (cases "status (ht s i) \<noteq> STATUS_UNDECIDED \<or> undecided_hold_tap s \<noteq> Some i")
    case True
    then show ?thesis using inv by (auto simp add: decide_hold_tap_def)
  next
    case active: False
    show ?thesis
    proof (cases "hold_while_undecided (config (ht s i)) \<and> dm = HT_KEY_DOWN")
      case True
      then have "decide_hold_tap e i dm s = snd (press_hold_binding e i s)"
        using active by (simp add: decide_hold_tap_def)
      then show ?thesis
        using m inv by (simp add: press_hold_binding_def one_undecided_invoke_binding_set)
    next
      case False
      show ?thesis
      proof (cases "status (ht s1 i) = STATUS_UNDECIDED")
        case True
        then have "decide_hold_tap e i dm s = s1"
          using active False by (auto simp add: decide_hold_tap_def Let_def s1_def)
        with i1 show ?thesis by simp
      next
        case dec: False
        have eq: "decide_hold_tap e i dm s =
            release_captured_events e (snd (press_binding e i (s2\<lparr>undecided_hold_tap := None\<rparr>)))"
          using active False dec
          by (auto simp add: decide_hold_tap_def Let_def s1_def s2_def)
        have "one_undecided (s2\<lparr>undecided_hold_tap := None\<rparr>)"
          using i2 u2 active d2[OF dec] by (auto intro: one_undecided_decided)
        then show ?thesis
          unfolding eq using m
          by (simp add: one_undecided_release_captured_events one_undecided_press_binding)
      qed
    qed
  qed
qed

lemma one_undecided_decide_retro_tap:
  assumes m: "maintains_one_undecided e" and inv: "one_undecided s"
  shows "one_undecided (decide_retro_tap e i s)"
proof -
  have "one_undecided (upd_ht i (\<lambda>h. h\<lparr>status := STATUS_TAP\<rparr>) (snd (release_binding e i s)))"
    by (rule one_undecided_upd_ht) (simp_all add: one_undecided_release_binding m inv)
  then show ?thesis
    using m inv by (simp add: decide_retro_tap_def Let_def one_undecided_press_binding)
qed

lemma one_undecided_retro_loop:
  "maintains_one_undecided e \<Longrightarrow> one_undecided s \<Longrightarrow> one_undecided (retro_loop e p ix s)"
proof (induction ix arbitrary: s)
  case Nil
  then show ?case by simp
next
  case (Cons i ix)
  have "one_undecided (upd_ht i (\<lambda>h. h\<lparr>status := STATUS_HOLD_INTERRUPT\<rparr>) s)"
    by (rule one_undecided_upd_ht) (simp_all add: Cons.prems)
  then have "one_undecided
      (snd (press_binding e i (upd_ht i (\<lambda>h. h\<lparr>status := STATUS_HOLD_INTERRUPT\<rparr>) s)))"
    using Cons.prems(1) by (simp add: one_undecided_press_binding)
  then show ?case using Cons by simp
qed

lemma one_undecided_clear_hold_tap: "one_undecided s \<Longrightarrow> one_undecided (clear_hold_tap i s)"
  unfolding clear_hold_tap_def by (rule one_undecided_upd_ht) simp_all

lemma one_undecided_capture_event: "one_undecided (snd (capture_event c s)) = one_undecided s"
  by (rule one_undecided_cong) (simp_all add: capture_event_def split: option.splits)

lemma one_undecided_log_err: "one_undecided (log_err msg s) = one_undecided s"
  by (rule one_undecided_cong) (simp_all add: log_err_def)

lemma one_undecided_pressed:
  assumes m: "maintains_one_undecided e" and inv: "one_undecided s"
  shows "one_undecided (snd (on_hold_tap_binding_pressed e cfg ev up s))"
proof (cases "undecided_hold_tap s \<noteq> None")
  case True
  then show ?thesis using inv by (simp add: on_hold_tap_binding_pressed_def)
next
  case none: False
  show ?thesis
  proof (cases "first_slot (\<lambda>h. \<not> position h \<noteq> CHT_POSITION_NOT_USED) (active_hold_taps s)")
    case None
    then show ?thesis
      using inv none
      by (simp add: on_hold_tap_binding_pressed_def store_hold_tap_def one_undecided_log_err)
  next
    case (Some i)
    define s1 where "s1 = snd (store_hold_tap ev cfg s)"
    define s3 where "s3 = (upd_ht i (\<lambda>h. h\<lparr>selected_flavor :=
         select_flavor cfg (be_timestamp ev) s1\<rparr>) s1)\<lparr>undecided_hold_tap := Some i\<rparr>"
    have i: "i < length (active_hold_taps s)" using Some first_slot_Some by blast
    have sh: "store_hold_tap ev cfg s = (Some i, s1)"
      using Some by (simp add: s1_def store_hold_tap_def)
    have i3: "one_undecided s3"
      unfolding one_undecided_def
    proof (intro allI impI)
      fix j
      assume j: "j < length (active_hold_taps s3)"
        and u: "position (ht s3 j) \<noteq> CHT_POSITION_NOT_USED \<and> status (ht s3 j) = STATUS_UNDECIDED"
      have "j = i"
      proof (rule ccontr)
        assume ne: "j \<noteq> i"
        then have "ht s3 j = ht s j"
          using Some by (simp add: s3_def s1_def store_hold_tap_def upd_ht_def ht_def)
        moreover have "j < length (active_hold_taps s)"
          using j Some by (simp add: s3_def s1_def store_hold_tap_def upd_ht_def)
        ultimately have "undecided_hold_tap s = Some j"
          using inv u by (simp add: one_undecided_def)
        with none show False by simp
      qed
      then show "undecided_hold_tap s3 = Some j" by (simp add: s3_def)
    qed
    show ?thesis
      using i3[unfolded s3_def] none sh m
      by (simp add: on_hold_tap_binding_pressed_def Let_def one_undecided_call
          one_undecided_decide_hold_tap)
  qed
qed

lemma one_undecided_work_is_cancelled:
  "one_undecided s \<Longrightarrow> one_undecided (upd_ht i (\<lambda>h. h\<lparr>work_is_cancelled := True\<rparr>) s)"
  by (rule one_undecided_upd_ht) simp_all

lemma one_undecided_released:
  assumes m: "maintains_one_undecided e" and inv: "one_undecided s"
  shows "one_undecided (snd (on_hold_tap_binding_released e ev s))"
proof (cases "find_hold_tap (be_position ev) s")
  case None
  then show ?thesis
    using inv
    by (simp add: on_hold_tap_binding_released_def one_undecided_log_err)
next
  case (Some i)
  obtain r s1 where c: "call e (WorkCancel i) s = (r, s1)" by (cases "call e (WorkCancel i) s")
  have i1: "one_undecided s1" using one_undecided_call[OF m inv, of "WorkCancel i"] c by simp
  show ?thesis
    using Some c i1 m
    by (simp add: on_hold_tap_binding_released_def Let_def one_undecided_decide_hold_tap
        one_undecided_decide_retro_tap one_undecided_release_binding
        one_undecided_release_hold_binding one_undecided_clear_hold_tap
        one_undecided_work_is_cancelled)
qed

lemma one_undecided_first_other:
  "one_undecided s \<Longrightarrow>
   one_undecided (upd_ht u (\<lambda>h. h\<lparr>position_of_first_other_key_pressed := p\<rparr>) s)"
  by (rule one_undecided_upd_ht) simp_all

lemma one_undecided_update_hold_status:
  "maintains_one_undecided e \<Longrightarrow> one_undecided s \<Longrightarrow>
   one_undecided (update_hold_status_for_retro_tap e p s)"
  by (simp add: update_hold_status_for_retro_tap_def one_undecided_retro_loop)

lemma one_undecided_position_listener:
  assumes m: "maintains_one_undecided e" and inv: "one_undecided s"
  shows "one_undecided (snd (position_state_changed_listener e ev s))"
  using m inv
  by (simp add: position_state_changed_listener_def Let_def one_undecided_update_hold_status
      one_undecided_first_other one_undecided_log_err one_undecided_decide_hold_tap
      one_undecided_capture_event split: option.splits)

lemma one_undecided_store_last_tapped: "one_undecided (store_last_tapped ts s) = one_undecided s"
  by (rule one_undecided_cong) (simp_all add: store_last_tapped_def)

lemma one_undecided_keycode_listener:
  "one_undecided s \<Longrightarrow> one_undecided (snd (keycode_state_changed_listener e ev s))"
  by (simp add: keycode_state_changed_listener_def Let_def one_undecided_store_last_tapped
      one_undecided_capture_event split: option.splits)

lemma one_undecided_timer:
  "maintains_one_undecided e \<Longrightarrow> one_undecided s \<Longrightarrow>
   one_undecided (behavior_contextual_hold_tap_timer_work_handler e i s)"
  by (simp add: behavior_contextual_hold_tap_timer_work_handler_def one_undecided_clear_hold_tap
      one_undecided_decide_hold_tap)

lemma one_undecided_initial_state: "one_undecided (initial_state max_held max_captured)"
  by (simp add: one_undecided_def initial_state_eq ht_def)

lemma maintains_one_undecided_quiet: "maintains_one_undecided (quiet m)"
  by (simp add: maintains_one_undecided_def quiet_def)

lemma maintains_one_undecided_pipeline: "maintains_one_undecided pipeline"
proof -
  have p: "maintains_one_undecided plain"
    by (simp add: plain_def maintains_one_undecided_quiet)
  have "one_undecided (snd (ext pipeline a s))" if inv: "one_undecided s" for a s
  proof (cases a)
    case (Raise c)
    show ?thesis
    proof (cases c)
      case (ET_POS_CHANGED ev)
      obtain r s' where l: "position_state_changed_listener plain ev s = (r, s')"
        by (cases "position_state_changed_listener plain ev s")
      have i': "one_undecided s'"
        using one_undecided_position_listener[OF p inv, of ev] l by simp
      show ?thesis
        using Raise ET_POS_CHANGED l i' one_undecided_pressed[OF p i']
          one_undecided_released[OF p i']
        by (cases r) (simp_all add: pipeline_def)
    qed (simp_all add: pipeline_def Raise inv)
  qed (simp_all add: pipeline_def inv)
  then show ?thesis by (simp add: maintains_one_undecided_def)
qed

text \<open>
  C5. Every slot in use whose status is UNDECIDED is the one slot
  \<^verbatim>\<open>undecided_hold_tap\<close> points to: this holds in the initial state and every entry point
  of the module keeps it, in every environment whose external calls keep it (the
  re-entered handlers are such calls). The guard that keeps it at a hold-tap press: a
  press that arrives while \<^verbatim>\<open>undecided_hold_tap\<close> is set returns
  \<^verbatim>\<open>ZMK_BEHAVIOR_OPAQUE\<close> and changes nothing: no slot is stored, no flavor selected,
  no timer scheduled, nothing invoked, and the undecided hold-tap is as it was.
\<close>

theorem second_undecided_press_swallowed:
  "(undecided_hold_tap s \<noteq> None \<longrightarrow>
      on_hold_tap_binding_pressed e cfg ev up s = (ZMK_BEHAVIOR_OPAQUE, s)) \<and>
   one_undecided (initial_state max_held max_captured) \<and>
   (maintains_one_undecided e \<and> one_undecided s \<longrightarrow>
      one_undecided (snd (on_hold_tap_binding_pressed e cfg ev up s)) \<and>
      one_undecided (snd (on_hold_tap_binding_released e ev s)) \<and>
      one_undecided (snd (position_state_changed_listener e pev s)) \<and>
      one_undecided (snd (keycode_state_changed_listener e kev s)) \<and>
      one_undecided (behavior_contextual_hold_tap_timer_work_handler e i s))"
proof -
  have "undecided_hold_tap s \<noteq> None \<longrightarrow>
      on_hold_tap_binding_pressed e cfg ev up s = (ZMK_BEHAVIOR_OPAQUE, s)"
    by (simp add: on_hold_tap_binding_pressed_def)
  then show ?thesis
    by (simp add: one_undecided_initial_state one_undecided_pressed
        one_undecided_released one_undecided_position_listener one_undecided_keycode_listener
        one_undecided_timer)
qed

theorem second_undecided_press_swallowed_witness:
  "undecided_hold_tap (sample_down (sample_config FLAVOR_BALANCED) 0) = Some 0 \<and>
   on_hold_tap_binding_pressed plain (sample_config FLAVOR_TAP_PREFERRED) (key_event 11 20) 20
       (sample_down (sample_config FLAVOR_BALANCED) 0)
     = (ZMK_BEHAVIOR_OPAQUE, sample_down (sample_config FLAVOR_BALANCED) 0) \<and>
   one_undecided (sample_down (sample_config FLAVOR_BALANCED) 0) \<and>
   one_undecided sample_tapped \<and>
   one_undecided sample_nested"
proof -
  let ?s = "sample_down (sample_config FLAVOR_BALANCED) 0"
  have u: "undecided_hold_tap ?s = Some 0" by code_simp
  have m: "maintains_one_undecided plain"
    by (simp add: plain_def maintains_one_undecided_quiet)
  have a: "on_hold_tap_binding_pressed plain (sample_config FLAVOR_TAP_PREFERRED) (key_event 11 20) 20 ?s
      = (ZMK_BEHAVIOR_OPAQUE, ?s)"
    using second_undecided_press_swallowed[of ?s plain "sample_config FLAVOR_TAP_PREFERRED"
        "key_event 11 20" 20] u
    by simp
  have b: "one_undecided ?s"
    using second_undecided_press_swallowed[of "initial_state 10 40" plain
        "sample_config FLAVOR_BALANCED" "key_event 10 0" 0 10 40] m
    by (simp add: sample_down_def)
  have c: "one_undecided sample_tapped"
    using second_undecided_press_swallowed[of ?s plain _ "key_event 10 30"] m b
    by (simp add: sample_tapped_def)
  have n: "maintains_one_undecided pipeline" by (rule maintains_one_undecided_pipeline)
  have d1: "one_undecided (snd (position_state_changed_listener pipeline (position_event 11 True 5) ?s))"
    using second_undecided_press_swallowed[of ?s pipeline] n b by simp
  have d2: "one_undecided (snd (position_state_changed_listener pipeline (position_event 20 True 10)
      (snd (position_state_changed_listener pipeline (position_event 11 True 5) ?s))))"
    using second_undecided_press_swallowed[of _ pipeline] n d1 by simp
  have d: "one_undecided sample_nested"
    unfolding sample_nested_def
    using second_undecided_press_swallowed[of _ pipeline] n d2 by simp
  from u a b c d show ?thesis by simp
qed

end
